theory Spec2Isabelle
  imports
    Complex_Main
    "HOL-Library.Word"
    "HOL-Library.Char_ord"
    "HOL-Library.List_Lexorder"
begin

unbundle bit_operations_syntax

section \<open>Shared data\<close>

text \<open>
  JavaScript exceptions are values of \<open>error\<close>. \<open>TypeError\<close> is what reading a property of
  \<^verbatim>\<open>undefined\<close> throws, \<open>RangeError\<close> is what a \<^verbatim>\<open>DataView\<close> getter throws when the
  requested bytes do not lie inside the buffer. \<open>FormatError\<close> is the error of the version
  parser and \<open>TransportError\<close> the rejection of the external root payload load; neither class
  is in the sources, both are named after the specification's taxonomy, which sorts failures
  by their cause. The sources define no error classes: what they throw is what the
  JavaScript runtime throws.
\<close>

datatype error = TypeError | RangeError | FormatError | TransportError

text \<open>
  Arithmetic on JavaScript numbers (IEEE doubles, the two infinities, NaN, stores into a
  \<^verbatim>\<open>Float32Array\<close>) is a parameter of the model: a record of the operations the code
  uses, over any type \<open>'f\<close> of numbers. Every theorem that involves them holds for every
  interpretation of them. The coordinates of bounding boxes and everything the decoder
  computes are such numbers.
\<close>

record 'f float_ops =
  f_of_int :: "int \<Rightarrow> 'f"
  f_add :: "'f \<Rightarrow> 'f \<Rightarrow> 'f"
  f_sub :: "'f \<Rightarrow> 'f \<Rightarrow> 'f"
  f_mul :: "'f \<Rightarrow> 'f \<Rightarrow> 'f"
  f_div :: "'f \<Rightarrow> 'f \<Rightarrow> 'f"
  f_min :: "'f \<Rightarrow> 'f \<Rightarrow> 'f"
  f_max :: "'f \<Rightarrow> 'f \<Rightarrow> 'f"
  f_pos_inf :: 'f
  f_neg_inf :: 'f
  f_round32 :: "'f \<Rightarrow> 'f"

text \<open>
  An interpretation of the number operations on which the definitions can be evaluated:
  exact real arithmetic, extended by the two infinities and NaN with the rules of IEEE
  arithmetic for them, and with the identity as rounding.
\<close>

datatype jsnum = JNaN | JNegInf | JFin real | JPosInf

fun j_neg :: "jsnum \<Rightarrow> jsnum" where
  "j_neg JNaN = JNaN"
| "j_neg JNegInf = JPosInf"
| "j_neg (JFin a) = JFin (- a)"
| "j_neg JPosInf = JNegInf"

fun j_add :: "jsnum \<Rightarrow> jsnum \<Rightarrow> jsnum" where
  "j_add (JFin a) (JFin b) = JFin (a + b)"
| "j_add JNaN y = JNaN"
| "j_add x JNaN = JNaN"
| "j_add JPosInf JNegInf = JNaN"
| "j_add JNegInf JPosInf = JNaN"
| "j_add JPosInf y = JPosInf"
| "j_add x JPosInf = JPosInf"
| "j_add JNegInf y = JNegInf"
| "j_add x JNegInf = JNegInf"

fun j_sign :: "jsnum \<Rightarrow> real" where
  "j_sign JNaN = 0"
| "j_sign JNegInf = - 1"
| "j_sign (JFin a) = sgn a"
| "j_sign JPosInf = 1"

definition j_signed_inf :: "real \<Rightarrow> jsnum" where
  "j_signed_inf s = (if s = 0 then JNaN else if 0 < s then JPosInf else JNegInf)"

fun j_mul :: "jsnum \<Rightarrow> jsnum \<Rightarrow> jsnum" where
  "j_mul (JFin a) (JFin b) = JFin (a * b)"
| "j_mul JNaN y = JNaN"
| "j_mul x JNaN = JNaN"
| "j_mul x y = j_signed_inf (j_sign x * j_sign y)"

fun j_div :: "jsnum \<Rightarrow> jsnum \<Rightarrow> jsnum" where
  "j_div (JFin a) (JFin b) = (if b = 0 then j_signed_inf (sgn a) else JFin (a / b))"
| "j_div JNaN y = JNaN"
| "j_div x JNaN = JNaN"
| "j_div (JFin a) y = JFin 0"
| "j_div x (JFin b) = j_signed_inf (j_sign x * (if b < 0 then - 1 else 1))"
| "j_div x y = JNaN"

fun j_le :: "jsnum \<Rightarrow> jsnum \<Rightarrow> bool" where
  "j_le (JFin a) (JFin b) = (a \<le> b)"
| "j_le JNegInf y = True"
| "j_le x JPosInf = True"
| "j_le x y = False"

definition j_min :: "jsnum \<Rightarrow> jsnum \<Rightarrow> jsnum" where
  "j_min x y = (if x = JNaN \<or> y = JNaN then JNaN else if j_le x y then x else y)"

definition j_max :: "jsnum \<Rightarrow> jsnum \<Rightarrow> jsnum" where
  "j_max x y = (if x = JNaN \<or> y = JNaN then JNaN else if j_le x y then y else x)"

definition exact_ops :: "jsnum float_ops" where
  "exact_ops =
     \<lparr>f_of_int = (\<lambda>k. JFin (of_int k)), f_add = j_add, f_sub = (\<lambda>x y. j_add x (j_neg y)),
      f_mul = j_mul, f_div = j_div, f_min = j_min, f_max = j_max,
      f_pos_inf = JPosInf, f_neg_inf = JNegInf, f_round32 = (\<lambda>x. x)\<rparr>"

text \<open>
  Vectors and boxes of three.js, over the numbers \<open>'f\<close>. The spacing of the metadata document
  is only ever divided by a power of two, which is exact in doubles short of underflow, and
  is modelled as a real; point counts are integers.
\<close>

record 'f vec3 =
  vx :: 'f
  vy :: 'f
  vz :: 'f

record 'f box3 =
  box_min :: "'f vec3"
  box_max :: "'f vec3"

text \<open>\<^verbatim>\<open>Vector3.sub\<close> of three.js: component-wise subtraction of doubles.\<close>

definition vsub :: "'f float_ops \<Rightarrow> 'f vec3 \<Rightarrow> 'f vec3 \<Rightarrow> 'f vec3" where
  "vsub ops a b =
     \<lparr>vx = f_sub ops (vx a) (vx b), vy = f_sub ops (vy a) (vy b), vz = f_sub ops (vz a) (vz b)\<rparr>"

definition origin :: "'f float_ops \<Rightarrow> 'f vec3" where
  "origin ops = \<lparr>vx = f_of_int ops 0, vy = f_of_int ops 0, vz = f_of_int ops 0\<rparr>"

section \<open>utils.ts\<close>

text \<open>
  \<^verbatim>\<open>parseInt(c, 10)\<close> of a string of one character: the digit's value, and \<^verbatim>\<open>NaN\<close>
  (here \<open>None\<close>) for every other character.
\<close>

definition digit_value :: "char \<Rightarrow> nat option" where
  "digit_value c =
     (let k = (of_char c :: nat) in if 48 \<le> k \<and> k \<le> 57 then Some (k - 48) else None)"

text \<open>
  \<^verbatim>\<open>parseInt(name.charAt(name.length - 1), 10)\<close>. For the empty name \<^verbatim>\<open>charAt(-1)\<close> is the
  empty string and the result is \<^verbatim>\<open>NaN\<close>.
\<close>

definition getIndexFromName :: "string \<Rightarrow> nat option" where
  "getIndexFromName nm = (if nm = [] then None else digit_value (last nm))"

text \<open>
  An octree node. The class \<^verbatim>\<open>PointCloudOctreeGeometryNode\<close> is not among the sources; the
  record has the fields the loader assigns. Node objects are shared by reference, so a
  child slot holds the address of the child in the heap of nodes (see the metadata loader).
  A slot is addressed by the value of \<^verbatim>\<open>getIndexFromName\<close>, \<open>None\<close> being the property
  \<^verbatim>\<open>NaN\<close>.
\<close>

record 'f node =
  node_name :: string
  node_index :: "nat option"
  node_boundingBox :: "'f box3"
  node_level :: int
  node_numPoints :: int
  node_spacing :: real
  node_hasChildren :: bool
  node_children :: "nat option \<rightharpoonup> nat"

text \<open>
  \<^verbatim>\<open>byLevelAndIndex\<close>: the comparator passed to \<^verbatim>\<open>[].sort\<close>. Strings compare as in
  JavaScript, lexicographically by character code with a proper prefix first, which is the
  order of \<open>HOL-Library.List_Lexorder\<close> over \<open>HOL-Library.Char_ord\<close>.
\<close>

definition byLevelAndIndex :: "'f node \<Rightarrow> 'f node \<Rightarrow> int" where
  "byLevelAndIndex a b =
     (let na = node_name a; nb = node_name b in
      if length na \<noteq> length nb then int (length na) - int (length nb)
      else if na < nb then -1
      else if na > nb then 1
      else 0)"

section \<open>The version gate\<close>

text \<open>
  Modelled from the spec: the class \<^verbatim>\<open>Version\<close> (\<^verbatim>\<open>../version\<close> is not among the sources).
  The specification: a dotted version string is parsed into its numeric components;
  parsing fails with a FormatError if the string is not of dotted-numeric form; the
  "at or below" comparison is numeric, component by component, left to right, a missing
  trailing component counting as zero.
\<close>

fun split_on :: "char \<Rightarrow> string \<Rightarrow> string list" where
  "split_on c [] = [[]]"
| "split_on c (x # xs) =
     (if x = c then [] # split_on c xs
      else (case split_on c xs of [] \<Rightarrow> [[x]] | p # ps \<Rightarrow> (x # p) # ps))"

fun digits_value :: "nat \<Rightarrow> string \<Rightarrow> nat option" where
  "digits_value acc [] = Some acc"
| "digits_value acc (c # cs) =
     (case digit_value c of None \<Rightarrow> None | Some d \<Rightarrow> digits_value (10 * acc + d) cs)"

definition parse_component :: "string \<Rightarrow> nat option" where
  "parse_component s = (if s = [] then None else digits_value 0 s)"

definition version_components :: "string \<Rightarrow> nat list option" where
  "version_components s = those (map parse_component (split_on (CHR ''.'') s))"

datatype version = Version (components: "nat list")

definition new_Version :: "string \<Rightarrow> error + version" where
  "new_Version s =
     (case version_components s of None \<Rightarrow> Inl FormatError | Some cs \<Rightarrow> Inr (Version cs))"

fun le_components :: "nat list \<Rightarrow> nat list \<Rightarrow> bool" where
  "le_components [] [] = True"
| "le_components [] (b # bs) = (if 0 < b then True else le_components [] bs)"
| "le_components (a # as) [] = (if 0 < a then False else le_components as [])"
| "le_components (a # as) (b # bs) =
     (if a < b then True else if b < a then False else le_components as bs)"

definition upTo :: "version \<Rightarrow> string \<Rightarrow> bool" where
  "upTo v threshold =
     (case version_components threshold of
        None \<Rightarrow> False
      | Some ts \<Rightarrow> le_components (components v) ts)"

section \<open>The metadata loader\<close>

record 'f BoundingBoxData =
  lx :: 'f
  ly :: 'f
  lz :: 'f
  ux :: 'f
  uy :: 'f
  uz :: 'f

text \<open>The metadata document \<^verbatim>\<open>POCJson\<close>; the optional field is an \<open>option\<close>.\<close>

record 'f POCJson =
  data_version :: string
  data_octreeDir :: string
  data_projection :: string
  data_points :: int
  data_boundingBox :: "'f BoundingBoxData"
  data_tightBoundingBox :: "'f BoundingBoxData option"
  data_pointAttributes :: "string list"
  data_spacing :: real
  data_scale :: real
  data_hierarchyStepSize :: int
  data_hierarchy :: "(string \<times> int) list"

text \<open>
  Node objects live in a heap, a list addressed by position; the name-to-node map
  \<^verbatim>\<open>nodes\<close>, the child slots and \<^verbatim>\<open>pco.root\<close> hold addresses. So a node reached through
  the map and through its parent's slot is one object, and two objects with the same name
  are two entries of the heap.
\<close>

record 'f hstate =
  heap :: "'f node list"
  nodes :: "string \<rightharpoonup> nat"

text \<open>
  The fields of \<^verbatim>\<open>PointCloudOctreeGeometry\<close> that \<^verbatim>\<open>parse\<close> assigns. The loader object
  passed to its constructor is an external collaborator and is left out.
\<close>

record 'f pco =
  pco_boundingBox :: "'f box3"
  pco_tightBoundingBox :: "'f box3"
  pco_offset :: "'f vec3"
  pco_url :: string
  pco_octreeDir :: string
  pco_needsUpdate :: bool
  pco_spacing :: real
  pco_hierarchyStepSize :: int
  pco_projection :: string
  pco_pointAttributes :: "string list"
  pco_root :: "nat option"
  pco_nodes :: "string \<rightharpoonup> nat"

text \<open>
  What the loader calls and the sources do not hold: \<^verbatim>\<open>createChildAABB\<close> of
  \<^verbatim>\<open>../utils/bounds\<close>, taken as a parameter, and the outcome of the root node's own
  \<^verbatim>\<open>load()\<close>, an external collaborator that resolves (\<open>None\<close>) or rejects; its effects
  on the node are outside this model.
\<close>

record 'f env =
  createChildAABB :: "'f box3 \<Rightarrow> nat option \<Rightarrow> 'f box3"
  root_load :: "error option"

text \<open>
  Modelled from the spec: the constructor of \<^verbatim>\<open>PointCloudOctreeGeometryNode\<close> (the class
  is not among the sources). A new node has its name, its bounding box, the octant index
  read from its name, level 0, no points and no children.
\<close>

definition new_node :: "string \<Rightarrow> 'f box3 \<Rightarrow> 'f node" where
  "new_node nm bb =
     \<lparr>node_name = nm, node_index = getIndexFromName nm, node_boundingBox = bb,
      node_level = 0, node_numPoints = 0, node_spacing = 0, node_hasChildren = False,
      node_children = Map.empty\<rparr>"

text \<open>
  Modelled from the spec: \<^verbatim>\<open>addChild\<close> of the same class attaches the child to the
  parent's child slot for the child's octant index. \<open>a\<close> is the child's address.
\<close>

definition addChild :: "'f node \<Rightarrow> nat \<Rightarrow> 'f node \<Rightarrow> 'f node" where
  "addChild parent a child =
     parent\<lparr>node_children := (node_children parent)(node_index child \<mapsto> a)\<rparr>"

definition getBoundingBoxes :: "'f float_ops \<Rightarrow> 'f POCJson \<Rightarrow> 'f vec3 \<times> 'f box3 \<times> 'f box3" where
  "getBoundingBoxes ops data =
     (let bmin = \<lparr>vx = lx (data_boundingBox data), vy = ly (data_boundingBox data),
                  vz = lz (data_boundingBox data)\<rparr>;
          bmax = \<lparr>vx = ux (data_boundingBox data), vy = uy (data_boundingBox data),
                  vz = uz (data_boundingBox data)\<rparr>;
          boundingBox = \<lparr>box_min = bmin, box_max = bmax\<rparr>;
          tightBoundingBox = boundingBox;
          offset = bmin;
          tightBoundingBox =
            (case data_tightBoundingBox data of
               None \<Rightarrow> tightBoundingBox
             | Some t \<Rightarrow>
                 \<lparr>box_min = \<lparr>vx = lx t, vy = ly t, vz = lz t\<rparr>,
                  box_max = \<lparr>vx = ux t, vy = uy t, vz = uz t\<rparr>\<rparr>);
          boundingBox = \<lparr>box_min = vsub ops (box_min boundingBox) offset,
                         box_max = vsub ops (box_max boundingBox) offset\<rparr>;
          tightBoundingBox = \<lparr>box_min = vsub ops (box_min tightBoundingBox) offset,
                              box_max = vsub ops (box_max tightBoundingBox) offset\<rparr>
      in (offset, boundingBox, tightBoundingBox))"

text \<open>
  \<^verbatim>\<open>loadRoot\<close>. \<^verbatim>\<open>data.hierarchy[0][1]\<close> of an empty list reads a property of
  \<^verbatim>\<open>undefined\<close>: a TypeError. The root is allocated at the end of the heap.
\<close>

definition loadRoot :: "'f env \<Rightarrow> 'f pco \<Rightarrow> 'f POCJson \<Rightarrow> 'f hstate \<Rightarrow> version \<Rightarrow> error + 'f pco \<times> 'f hstate" where
  "loadRoot e p data st v =
     (let nm = ''r'';
          root = (new_node nm (pco_boundingBox p))
                   \<lparr>node_hasChildren := True, node_spacing := pco_spacing p\<rparr>
      in case (if upTo v ''1.5''
               then (case data_hierarchy data of
                       [] \<Rightarrow> Inl TypeError
                     | h0 # _ \<Rightarrow> Inr (root\<lparr>node_numPoints := snd h0\<rparr>))
               else Inr (root\<lparr>node_numPoints := 0\<rparr>)) of
           Inl err \<Rightarrow> Inl err
         | Inr root' \<Rightarrow>
             (let a = length (heap st);
                  p' = p\<lparr>pco_root := Some a\<rparr>;
                  st' = \<lparr>heap = heap st @ [root'], nodes = (nodes st)(nm \<mapsto> a)\<rparr>
              in case root_load e of
                   Some err \<Rightarrow> Inl err
                 | None \<Rightarrow> Inr (p', st')))"

record parsed_name =
  pn_index :: "nat option"
  pn_parentName :: string
  pn_level :: int

text \<open>\<^verbatim>\<open>name.substring(0, name.length - 1)\<close> is \<open>butlast\<close>, also on the empty name.\<close>

definition parseName :: "string \<Rightarrow> parsed_name" where
  "parseName nm =
     \<lparr>pn_index = getIndexFromName nm, pn_parentName = butlast nm,
      pn_level = int (length nm) - 1\<rparr>"

text \<open>
  One turn of the loop of \<^verbatim>\<open>loadRemainingHierarchy\<close>. \<^verbatim>\<open>nodes[parentName]\<close> of a missing
  key is \<^verbatim>\<open>undefined\<close>, and \<^verbatim>\<open>parentNode.boundingBox\<close> then throws a TypeError. (A key
  that the plain object \<^verbatim>\<open>nodes\<close> inherits from its prototype is missing from the map too;
  for it the turn ends in a TypeError as well, at \<^verbatim>\<open>parentNode.addChild\<close> at the latest.)
  An address is put into the map when its node is appended to the heap, and the heap only
  grows, so \<open>heap st ! pa\<close> is in range.
\<close>

definition hierarchy_step :: "'f env \<Rightarrow> 'f pco \<Rightarrow> string \<times> int \<Rightarrow> 'f hstate \<Rightarrow> error + 'f hstate" where
  "hierarchy_step e p entry st =
     (let nm = fst entry; numPoints = snd entry;
          pn = parseName nm
      in case nodes st (pn_parentName pn) of
           None \<Rightarrow> Inl TypeError
         | Some pa \<Rightarrow>
             (let parentNode = heap st ! pa;
                  boundingBox = createChildAABB e (node_boundingBox parentNode) (pn_index pn);
                  nd = (new_node nm boundingBox)
                         \<lparr>node_level := pn_level pn, node_numPoints := numPoints,
                          node_spacing := pco_spacing p / power_int 2 (pn_level pn)\<rparr>;
                  a = length (heap st);
                  h1 = heap st @ [nd];
                  ns = (nodes st)(nm \<mapsto> a);
                  h2 = h1[pa := addChild (h1 ! pa) a nd]
              in Inr \<lparr>heap = h2, nodes = ns\<rparr>))"

fun hierarchy_loop :: "'f env \<Rightarrow> 'f pco \<Rightarrow> (string \<times> int) list \<Rightarrow> 'f hstate \<Rightarrow> error + 'f hstate" where
  "hierarchy_loop e p [] st = Inr st"
| "hierarchy_loop e p (entry # es) st =
     (case hierarchy_step e p entry st of
        Inl err \<Rightarrow> Inl err
      | Inr st' \<Rightarrow> hierarchy_loop e p es st')"

text \<open>The loop starts at index 1: the entries are those after the first.\<close>

definition loadRemainingHierarchy :: "'f env \<Rightarrow> 'f pco \<Rightarrow> 'f POCJson \<Rightarrow> 'f hstate \<Rightarrow> error + 'f hstate" where
  "loadRemainingHierarchy e p data st = hierarchy_loop e p (drop 1 (data_hierarchy data)) st"

text \<open>
  \<^verbatim>\<open>parse\<close>, applied to the fetched document. A rejected promise is \<open>Inl\<close>; the result of a
  fulfilled one is the geometry together with the heap its addresses point into.
\<close>

definition new_pco :: "'f float_ops \<Rightarrow> string \<Rightarrow> 'f POCJson \<Rightarrow> 'f pco" where
  "new_pco ops url data =
     (case getBoundingBoxes ops data of
        (offset, boundingBox, tightBoundingBox) \<Rightarrow>
          \<lparr>pco_boundingBox = boundingBox, pco_tightBoundingBox = tightBoundingBox,
           pco_offset = offset, pco_url = url, pco_octreeDir = data_octreeDir data,
           pco_needsUpdate = True, pco_spacing = data_spacing data,
           pco_hierarchyStepSize = data_hierarchyStepSize data,
           pco_projection = data_projection data,
           pco_pointAttributes = data_pointAttributes data,
           pco_root = None, pco_nodes = Map.empty\<rparr>)"

definition no_nodes :: "'f hstate" where
  "no_nodes = \<lparr>heap = [], nodes = Map.empty\<rparr>"

definition parse :: "'f float_ops \<Rightarrow> 'f env \<Rightarrow> string \<Rightarrow> 'f POCJson \<Rightarrow> error + 'f pco \<times> 'f node list" where
  "parse ops e url data =
     (let p = new_pco ops url data in
      case new_Version (data_version data) of
        Inl err \<Rightarrow> Inl err
      | Inr v \<Rightarrow>
          (case loadRoot e p data no_nodes v of
             Inl err \<Rightarrow> Inl err
           | Inr (p1, st1) \<Rightarrow>
               (if upTo v ''1.4''
                then (case loadRemainingHierarchy e p1 data st1 of
                        Inl err \<Rightarrow> Inl err
                      | Inr st2 \<Rightarrow> Inr (p1\<lparr>pco_nodes := nodes st2\<rparr>, heap st2))
                else Inr (p1\<lparr>pco_nodes := nodes st1\<rparr>, heap st1))))"

text \<open>
  Concrete inputs on which the definitions are evaluated: the document of the
  specification's scenario (a cube of side 10) with a given version string and hierarchy
  list, and an environment whose root load resolves. The stand-in for the absent
  \<^verbatim>\<open>createChildAABB\<close> returns the parent's box; no theorem depends on it.
\<close>

definition scenario_doc :: "string \<Rightarrow> (string \<times> int) list \<Rightarrow> jsnum POCJson" where
  "scenario_doc ver h =
     \<lparr>data_version = ver, data_octreeDir = ''data'', data_projection = [], data_points = 150,
      data_boundingBox = \<lparr>lx = JFin 0, ly = JFin 0, lz = JFin 0,
                          ux = JFin 10, uy = JFin 10, uz = JFin 10\<rparr>,
      data_tightBoundingBox = None, data_pointAttributes = [''POSITION_CARTESIAN''],
      data_spacing = 1, data_scale = 1 / 100, data_hierarchyStepSize = 5,
      data_hierarchy = h\<rparr>"

definition scenario_env :: "jsnum env" where
  "scenario_env = \<lparr>createChildAABB = (\<lambda>b i. b), root_load = None\<rparr>"

text \<open>Projections of the outcome of \<open>parse\<close>, for stating what a concrete load built.\<close>

definition built_root_numPoints :: "error + 'f pco \<times> 'f node list \<Rightarrow> int option" where
  "built_root_numPoints r =
     (case r of
        Inl err \<Rightarrow> None
      | Inr (p, h) \<Rightarrow>
          (case pco_root p of None \<Rightarrow> None | Some a \<Rightarrow> Some (node_numPoints (h ! a))))"

definition built_node_count :: "error + 'f pco \<times> 'f node list \<Rightarrow> nat option" where
  "built_node_count r = (case r of Inl err \<Rightarrow> None | Inr (p, h) \<Rightarrow> Some (length h))"

text \<open>
  The specification's reading of the bounding boxes, to compare \<^verbatim>\<open>getBoundingBoxes\<close> with:
  the box of a declared \<^verbatim>\<open>BoundingBoxData\<close>, and a box translated so that \<open>off\<close> becomes the
  origin.
\<close>

definition box_of :: "'f BoundingBoxData \<Rightarrow> 'f box3" where
  "box_of b = \<lparr>box_min = \<lparr>vx = lx b, vy = ly b, vz = lz b\<rparr>,
               box_max = \<lparr>vx = ux b, vy = uy b, vz = uz b\<rparr>\<rparr>"

definition translate :: "'f float_ops \<Rightarrow> 'f box3 \<Rightarrow> 'f vec3 \<Rightarrow> 'f box3" where
  "translate ops b off =
     \<lparr>box_min = vsub ops (box_min b) off, box_max = vsub ops (box_max b) off\<rparr>"

text \<open>
  The flat hierarchy list is parent-before-child when every entry after the first has its
  parent name among the names already built at its turn: the root, which the loader names
  \<^verbatim>\<open>r\<close>, and the entries after the first that precede it.
\<close>

fun parents_first :: "string list \<Rightarrow> (string \<times> int) list \<Rightarrow> bool" where
  "parents_first seen [] = True"
| "parents_first seen (entry # es) =
     (butlast (fst entry) \<in> set seen \<and> parents_first (fst entry # seen) es)"

definition parent_before_child :: "(string \<times> int) list \<Rightarrow> bool" where
  "parent_before_child h = parents_first [''r''] (drop 1 h)"

text \<open>More projections of the outcome of \<open>parse\<close>.\<close>

definition built_names :: "error + 'f pco \<times> 'f node list \<Rightarrow> string list option" where
  "built_names r = (case r of Inl err \<Rightarrow> None | Inr (p, h) \<Rightarrow> Some (map node_name h))"

definition registered_numPoints :: "error + 'f pco \<times> 'f node list \<Rightarrow> string \<Rightarrow> int option" where
  "registered_numPoints r nm =
     (case r of
        Inl err \<Rightarrow> None
      | Inr (p, h) \<Rightarrow>
          (case pco_nodes p nm of None \<Rightarrow> None | Some a \<Rightarrow> Some (node_numPoints (h ! a))))"

text \<open>
  The invariant of the loop of \<^verbatim>\<open>loadRemainingHierarchy\<close>: after the entries \<open>es\<close> the
  heap holds the root at address 0 and the node of the \<open>i\<close>-th entry at address \<open>i + 1\<close>,
  registered under its name and attached to its parent.
\<close>

definition entry_built :: "'f pco \<Rightarrow> 'f hstate \<Rightarrow> nat \<Rightarrow> string \<times> int \<Rightarrow> bool" where
  "entry_built p st a entry =
     (node_name (heap st ! a) = fst entry
      \<and> nodes st (fst entry) = Some a
      \<and> node_level (heap st ! a) = int (length (fst entry)) - 1
      \<and> node_numPoints (heap st ! a) = snd entry
      \<and> node_spacing (heap st ! a) = pco_spacing p / power_int 2 (int (length (fst entry)) - 1)
      \<and> (\<exists>pa. pa < length (heap st) \<and> nodes st (butlast (fst entry)) = Some pa
            \<and> (getIndexFromName (fst entry) \<noteq> None \<longrightarrow>
                 node_children (heap st ! pa) (getIndexFromName (fst entry)) = Some a)))"

definition tree_built :: "'f pco \<Rightarrow> (string \<times> int) list \<Rightarrow> 'f hstate \<Rightarrow> bool" where
  "tree_built p es st =
     (length (heap st) = Suc (length es)
      \<and> nodes st ''r'' = Some 0
      \<and> node_name (heap st ! 0) = ''r''
      \<and> nodes st [] = None
      \<and> dom (nodes st) = insert ''r'' (fst ` set es)
      \<and> (\<forall>nm a. nodes st nm = Some a \<longrightarrow> a < length (heap st) \<and> node_name (heap st ! a) = nm)
      \<and> (\<forall>i<length es. entry_built p st (Suc i) (es ! i)))"

section \<open>The point record decoder\<close>

type_synonym u8 = "8 word"
type_synonym u16 = "16 word"
type_synonym u32 = "32 word"
type_synonym 'f triple = "'f \<times> 'f \<times> 'f"

text \<open>
  \<^verbatim>\<open>event.data\<close>. A missing (falsy) \<^verbatim>\<open>buffer\<close> is \<open>None\<close>; the three-element arrays
  \<^verbatim>\<open>scale\<close>, \<^verbatim>\<open>offset\<close> and \<^verbatim>\<open>mins\<close> are triples.
\<close>

record 'f event_data =
  ev_buffer :: "u8 list option"
  ev_numPoints :: nat
  ev_pointSize :: nat
  ev_pointFormatID :: int
  ev_scale :: "'f triple"
  ev_offset :: "'f triple"
  ev_mins :: "'f triple"

record 'f message_event =
  ev_data :: "'f event_data option"

text \<open>
  The typed arrays and aggregates the loop writes, named as the worker's local variables
  (\<^verbatim>\<open>tightBoundingBox.min\<close> and \<^verbatim>\<open>.max\<close> are \<open>tbb_min\<close> and \<open>tbb_max\<close>). The buffers
  \<^verbatim>\<open>targetBuffer\<close> and \<^verbatim>\<open>clBuff\<close> are allocated and never used.
\<close>

record 'f dstate =
  positions :: "'f list"
  colors :: "u8 list"
  intensities :: "'f list"
  returnNumbers :: "u8 list"
  numberOfReturns :: "u8 list"
  pointSourceIDs :: "u16 list"
  mean :: "'f triple"
  tbb_min :: "'f triple"
  tbb_max :: "'f triple"

text \<open>The message passed to \<^verbatim>\<open>postMessage\<close>; each buffer is given as its typed view.\<close>

record 'f message =
  msg_mean :: "'f triple"
  msg_position :: "'f list"
  msg_color :: "u8 list"
  msg_intensity :: "'f list"
  msg_returnNumber :: "u8 list"
  msg_numberOfReturns :: "u8 list"
  msg_pointSourceID :: "u16 list"
  msg_tightBoundingBox :: "'f triple \<times> 'f triple"
  msg_indices :: "u32 list"

text \<open>
  Reading the source buffer. A \<^verbatim>\<open>DataView\<close> getter for \<open>w\<close> bytes at \<open>off\<close> throws a
  RangeError unless \<open>off + w\<close> is at most the buffer's length. To state which bytes of the
  buffer are read, a reader threads a trace, the list of the byte offsets read so far;
  a getter that throws reads nothing.
\<close>

type_synonym 'a reader = "nat list \<Rightarrow> (error + 'a) \<times> nat list"

definition rd_return :: "'a \<Rightarrow> 'a reader" where
  "rd_return x tr = (Inr x, tr)"

definition rd_bind :: "'a reader \<Rightarrow> ('a \<Rightarrow> 'b reader) \<Rightarrow> 'b reader" where
  "rd_bind m f tr = (case m tr of (Inl err, tr') \<Rightarrow> (Inl err, tr') | (Inr x, tr') \<Rightarrow> f x tr')"

definition dv_get :: "u8 list \<Rightarrow> nat \<Rightarrow> nat \<Rightarrow> (u8 list \<Rightarrow> 'a) \<Rightarrow> 'a reader" where
  "dv_get buf off w conv tr =
     (if off + w \<le> length buf
      then (Inr (conv (take w (drop off buf))), tr @ [off..<off + w])
      else (Inl RangeError, tr))"

text \<open>Little-endian value of a byte sequence; the signed reading of four bytes.\<close>

definition le_value :: "u8 list \<Rightarrow> nat" where
  "le_value bs = foldr (\<lambda>b v. unat b + 256 * v) bs 0"

definition int32_le :: "u8 list \<Rightarrow> int" where
  "int32_le bs = (let u = int (le_value bs) in if u < 2 ^ 31 then u else u - 2 ^ 32)"

text \<open>The getters are called with \<^verbatim>\<open>littleEndian = true\<close> throughout.\<close>

definition getInt32 :: "u8 list \<Rightarrow> nat \<Rightarrow> int reader" where
  "getInt32 buf off = dv_get buf off 4 int32_le"

definition getUint16 :: "u8 list \<Rightarrow> nat \<Rightarrow> nat reader" where
  "getUint16 buf off = dv_get buf off 2 le_value"

definition getUint8 :: "u8 list \<Rightarrow> nat \<Rightarrow> nat reader" where
  "getUint8 buf off = dv_get buf off 1 le_value"

text \<open>
  Storing a colour channel: the quotient \<^verbatim>\<open>v / 256\<close> of a 16-bit value is exact in a double,
  and the store into a \<^verbatim>\<open>Uint8Array\<close> truncates it to an integer modulo 256.
\<close>

definition color_channel :: "nat \<Rightarrow> u8" where
  "color_channel v = word_of_nat (v div 256)"

text \<open>
  The body of the decoding loop for record \<open>i\<close>, in the order of the source. A store into
  a typed array at an index outside it is ignored, as \<open>list_update\<close> does.
\<close>

definition decode_record ::
  "'f float_ops \<Rightarrow> 'f event_data \<Rightarrow> u8 list \<Rightarrow> nat \<Rightarrow> 'f dstate \<Rightarrow> 'f dstate reader" where
  "decode_record ops d buf i st =
     (let sourcePointSize = ev_pointSize d; numPoints = ev_numPoints d in
      rd_bind (getInt32 buf (i * sourcePointSize)) (\<lambda>ux.
      rd_bind (getInt32 buf (i * sourcePointSize + 4)) (\<lambda>uy.
      rd_bind (getInt32 buf (i * sourcePointSize + 8)) (\<lambda>uz.
        (case (ev_scale d, ev_offset d, ev_mins d) of
           ((s0, s1, s2), (o0, o1, o2), (m0, m1, m2)) \<Rightarrow>
        (case (mean st, tbb_min st, tbb_max st) of
           ((mean0, mean1, mean2), (min0, min1, min2), (max0, max1, max2)) \<Rightarrow>
        (let x = f_sub ops (f_add ops (f_mul ops (f_of_int ops ux) s0) o0) m0;
             y = f_sub ops (f_add ops (f_mul ops (f_of_int ops uy) s1) o1) m1;
             z = f_sub ops (f_add ops (f_mul ops (f_of_int ops uz) s2) o2) m2;
             st1 = st\<lparr>positions := (positions st)
                         [3 * i := f_round32 ops x, 3 * i + 1 := f_round32 ops y,
                          3 * i + 2 := f_round32 ops z],
                       mean := (f_add ops mean0 (f_div ops x (f_of_int ops (int numPoints))),
                                f_add ops mean1 (f_div ops y (f_of_int ops (int numPoints))),
                                f_add ops mean2 (f_div ops z (f_of_int ops (int numPoints)))),
                       tbb_min := (f_min ops min0 x, f_min ops min1 y, f_min ops min2 z),
                       tbb_max := (f_max ops max0 x, f_max ops max1 y, f_max ops max2 z)\<rparr>
         in
      rd_bind (getUint16 buf (i * sourcePointSize + 12)) (\<lambda>intensity.
        (let st2 = st1\<lparr>intensities := (intensities st1)
                          [i := f_round32 ops (f_of_int ops (int intensity))]\<rparr>
         in
      rd_bind (getUint8 buf (i * sourcePointSize + 14)) (\<lambda>returnNumberAndNumberOfReturns.
        (let returnNumber = returnNumberAndNumberOfReturns AND 7;
             numberOfReturn = drop_bit 3 (returnNumberAndNumberOfReturns AND 56);
             st3 = st2\<lparr>returnNumbers := (returnNumbers st2)[i := word_of_nat returnNumber],
                        numberOfReturns := (numberOfReturns st2)[i := word_of_nat numberOfReturn]\<rparr>
         in
      rd_bind (getUint16 buf (i * sourcePointSize + 18)) (\<lambda>pointSourceID.
        (let st4 = st3\<lparr>pointSourceIDs := (pointSourceIDs st3)[i := word_of_nat pointSourceID]\<rparr>
         in
         if ev_pointFormatID d = 2
         then
      rd_bind (getUint16 buf (i * sourcePointSize + 20)) (\<lambda>r.
      rd_bind (getUint16 buf (i * sourcePointSize + 22)) (\<lambda>g.
      rd_bind (getUint16 buf (i * sourcePointSize + 24)) (\<lambda>b.
        rd_return (st4\<lparr>colors := (colors st4)
                           [4 * i := color_channel r, 4 * i + 1 := color_channel g,
                            4 * i + 2 := color_channel b, 4 * i + 3 := 255]\<rparr>))))
         else rd_return st4)))))))))))))"

text \<open>\<^verbatim>\<open>for (var i = 0; i < numPoints; i++)\<close>, from \<open>i\<close> on.\<close>

function decode_loop ::
  "'f float_ops \<Rightarrow> 'f event_data \<Rightarrow> u8 list \<Rightarrow> nat \<Rightarrow> 'f dstate \<Rightarrow> 'f dstate reader" where
  "decode_loop ops d buf i st tr =
     (if i < ev_numPoints d
      then (case decode_record ops d buf i st tr of
              (Inl err, tr') \<Rightarrow> (Inl err, tr')
            | (Inr st', tr') \<Rightarrow> decode_loop ops d buf (i + 1) st' tr')
      else (Inr st, tr))"
  by pat_completeness auto
termination
  by (relation "measure (\<lambda>(ops, d, buf, i, st, tr). ev_numPoints d - i)") auto

text \<open>The state before the loop: zero-filled arrays sized by \<open>numPoints\<close>, and the seeds.\<close>

definition initial_state :: "'f float_ops \<Rightarrow> nat \<Rightarrow> 'f dstate" where
  "initial_state ops numPoints =
     \<lparr>positions = replicate (numPoints * 3) (f_of_int ops 0),
      colors = replicate (numPoints * 4) 0,
      intensities = replicate numPoints (f_of_int ops 0),
      returnNumbers = replicate numPoints 0,
      numberOfReturns = replicate numPoints 0,
      pointSourceIDs = replicate numPoints 0,
      mean = (f_of_int ops 0, f_of_int ops 0, f_of_int ops 0),
      tbb_min = (f_pos_inf ops, f_pos_inf ops, f_pos_inf ops),
      tbb_max = (f_neg_inf ops, f_neg_inf ops, f_neg_inf ops)\<rparr>"

text \<open>The second loop: \<^verbatim>\<open>iIndices[i] = i\<close> for every \<open>i\<close> below \<open>numPoints\<close>.\<close>

definition identity_indices :: "nat \<Rightarrow> u32 list" where
  "identity_indices numPoints =
     fold (\<lambda>i a. a[i := word_of_nat i]) [0..<numPoints] (replicate numPoints 0)"

text \<open>
  The handler. Its outcome is \<open>Inr None\<close> when it returns without posting, \<open>Inr (Some m)\<close>
  when it posts \<open>m\<close>, and \<open>Inl\<close> the exception when it throws; with it comes the trace of
  the bytes read from the source buffer.
\<close>

definition onmessage_run ::
  "'f float_ops \<Rightarrow> 'f message_event \<Rightarrow> (error + 'f message option) \<times> nat list" where
  "onmessage_run ops event =
     (case ev_data event of
        None \<Rightarrow> (Inr None, [])
      | Some d \<Rightarrow>
          (case ev_buffer d of
             None \<Rightarrow> (Inr None, [])
           | Some buffer \<Rightarrow>
               (let numPoints = ev_numPoints d in
                case decode_loop ops d buffer 0 (initial_state ops numPoints) [] of
                  (Inl err, tr) \<Rightarrow> (Inl err, tr)
                | (Inr st, tr) \<Rightarrow>
                    (Inr (Some \<lparr>msg_mean = mean st, msg_position = positions st,
                                msg_color = colors st, msg_intensity = intensities st,
                                msg_returnNumber = returnNumbers st,
                                msg_numberOfReturns = numberOfReturns st,
                                msg_pointSourceID = pointSourceIDs st,
                                msg_tightBoundingBox = (tbb_min st, tbb_max st),
                                msg_indices = identity_indices numPoints\<rparr>), tr))))"

definition onmessage :: "'f float_ops \<Rightarrow> 'f message_event \<Rightarrow> error + 'f message option" where
  "onmessage ops event = fst (onmessage_run ops event)"

definition bytes_read :: "'f float_ops \<Rightarrow> 'f message_event \<Rightarrow> nat list" where
  "bytes_read ops event = snd (onmessage_run ops event)"

text \<open>
  The record of the specification's scenario: quantized coordinates (100, 200, 300),
  intensity 7, return byte 0x4A, point source id 9, colour channels 0xFFFF, 0x8000, 0x0100
  (26 bytes), and an event to decode \<open>n\<close> records of \<open>sz\<close> bytes from a buffer.
\<close>

definition scenario_record :: "u8 list" where
  "scenario_record =
     [100, 0, 0, 0,  200, 0, 0, 0,  44, 1, 0, 0,  7, 0,  74, 0, 0, 0,  9, 0,
      255, 255,  0, 128,  0, 1]"

definition scenario_data :: "u8 list \<Rightarrow> nat \<Rightarrow> nat \<Rightarrow> int \<Rightarrow> jsnum event_data" where
  "scenario_data buf n sz fmt =
     \<lparr>ev_buffer = Some buf, ev_numPoints = n, ev_pointSize = sz, ev_pointFormatID = fmt,
      ev_scale = (JFin (1 / 100), JFin (1 / 100), JFin (1 / 100)),
      ev_offset = (JFin 0, JFin 0, JFin 0),
      ev_mins = (JFin 0, JFin 0, JFin 0)\<rparr>"

definition scenario_event :: "u8 list \<Rightarrow> nat \<Rightarrow> nat \<Rightarrow> int \<Rightarrow> jsnum message_event" where
  "scenario_event buf n sz fmt = \<lparr>ev_data = Some (scenario_data buf n sz fmt)\<rparr>"

text \<open>
  The bytes of a record the loop body touches: 20 (the last field read is the point source
  id at 18 and 19), and 26 when the colour channels are read.
\<close>

definition record_extent :: "int \<Rightarrow> nat" where
  "record_extent fmt = (if fmt = 2 then 26 else 20)"

text \<open>
  The specification's reading of the record layout and of the position formula, to compare
  the loop body with: the signed and unsigned little-endian values at a byte offset, and
  \<open>quantized * scale + offset - global_min\<close> in the worker's arithmetic.
\<close>

definition signed_le32_at :: "u8 list \<Rightarrow> nat \<Rightarrow> int" where
  "signed_le32_at buf off =
     (let u = int (unat (buf ! off)) + 256 * int (unat (buf ! (off + 1)))
              + 65536 * int (unat (buf ! (off + 2))) + 16777216 * int (unat (buf ! (off + 3)))
      in if u < 2147483648 then u else u - 4294967296)"

definition unsigned_le16_at :: "u8 list \<Rightarrow> nat \<Rightarrow> nat" where
  "unsigned_le16_at buf off = unat (buf ! off) + 256 * unat (buf ! (off + 1))"

definition world_coordinate :: "'f float_ops \<Rightarrow> int \<Rightarrow> 'f \<Rightarrow> 'f \<Rightarrow> 'f \<Rightarrow> 'f" where
  "world_coordinate ops quantized scale offset global_min =
     f_sub ops (f_add ops (f_mul ops (f_of_int ops quantized) scale) offset) global_min"

text \<open>A reader is safe for a buffer when it only adds offsets inside the buffer to the trace.\<close>

definition safe_reader :: "u8 list \<Rightarrow> 'a reader \<Rightarrow> bool" where
  "safe_reader buf m =
     (\<forall>tr. list_all (\<lambda>j. j < length buf) tr \<longrightarrow> list_all (\<lambda>j. j < length buf) (snd (m tr)))"

section \<open>The comparator\<close>

lemma byLevelAndIndex_neg_iff:
  "byLevelAndIndex a b < 0 \<longleftrightarrow>
     length (node_name a) < length (node_name b) \<or>
     (length (node_name a) = length (node_name b) \<and> node_name a < node_name b)"
  by (auto simp: byLevelAndIndex_def Let_def)

lemma byLevelAndIndex_zero_iff:
  "byLevelAndIndex a b = 0 \<longleftrightarrow> node_name a = node_name b"
  by (auto simp: byLevelAndIndex_def Let_def)

lemma byLevelAndIndex_pos_iff:
  "byLevelAndIndex a b > 0 \<longleftrightarrow> byLevelAndIndex b a < 0"
  by (auto simp: byLevelAndIndex_def Let_def)

text \<open>
  Claim C9. A node with the shorter name comes first; names of equal length are ordered
  lexicographically; the result is 0 exactly for equal names. So "comes first"
  (a negative result) is irreflexive, transitive and asymmetric, and any two nodes with
  distinct names are ordered one way or the other: a strict total order on nodes with
  distinct names.
\<close>

theorem byLevelAndIndex_strict_total_order:
  "(length (node_name a) < length (node_name b) \<longrightarrow> byLevelAndIndex a b < 0)
   \<and> (length (node_name a) = length (node_name b) \<longrightarrow>
        (byLevelAndIndex a b < 0 \<longleftrightarrow> node_name a < node_name b)
        \<and> (byLevelAndIndex a b > 0 \<longleftrightarrow> node_name a > node_name b))
   \<and> (byLevelAndIndex a b = 0 \<longleftrightarrow> node_name a = node_name b)
   \<and> \<not> byLevelAndIndex a a < 0
   \<and> (byLevelAndIndex a b < 0 \<longrightarrow> byLevelAndIndex b c < 0 \<longrightarrow> byLevelAndIndex a c < 0)
   \<and> (byLevelAndIndex a b < 0 \<longrightarrow> \<not> byLevelAndIndex b a < 0)
   \<and> (byLevelAndIndex a b > 0 \<longleftrightarrow> byLevelAndIndex b a < 0)
   \<and> (node_name a \<noteq> node_name b \<longrightarrow> byLevelAndIndex a b < 0 \<or> byLevelAndIndex b a < 0)"
proof -
  have trans: "byLevelAndIndex a b < 0 \<longrightarrow> byLevelAndIndex b c < 0 \<longrightarrow> byLevelAndIndex a c < 0"
    unfolding byLevelAndIndex_neg_iff by auto
  have total: "node_name a \<noteq> node_name b \<longrightarrow> byLevelAndIndex a b < 0 \<or> byLevelAndIndex b a < 0"
    unfolding byLevelAndIndex_neg_iff by auto
  have asym: "byLevelAndIndex a b < 0 \<longrightarrow> \<not> byLevelAndIndex b a < 0"
    unfolding byLevelAndIndex_neg_iff by auto
  have eqlen: "length (node_name a) = length (node_name b) \<longrightarrow>
        (byLevelAndIndex a b < 0 \<longleftrightarrow> node_name a < node_name b)
        \<and> (byLevelAndIndex a b > 0 \<longleftrightarrow> node_name a > node_name b)"
    by (auto simp: byLevelAndIndex_def Let_def)
  have shorter: "length (node_name a) < length (node_name b) \<longrightarrow> byLevelAndIndex a b < 0"
    by (simp add: byLevelAndIndex_neg_iff)
  have irrefl: "\<not> byLevelAndIndex a a < 0"
    by (simp add: byLevelAndIndex_neg_iff)
  from shorter eqlen byLevelAndIndex_zero_iff irrefl trans asym byLevelAndIndex_pos_iff total
  show ?thesis by blast
qed

theorem byLevelAndIndex_strict_total_order_witness:
  "byLevelAndIndex (new_node ''r3'' \<lparr>box_min = origin exact_ops, box_max = origin exact_ops\<rparr>)
                   (new_node ''r4'' \<lparr>box_min = origin exact_ops, box_max = origin exact_ops\<rparr>) < 0
   \<and> byLevelAndIndex (new_node ''r4'' \<lparr>box_min = origin exact_ops, box_max = origin exact_ops\<rparr>)
                     (new_node ''r01'' \<lparr>box_min = origin exact_ops, box_max = origin exact_ops\<rparr>) < 0
   \<and> byLevelAndIndex (new_node ''r3'' \<lparr>box_min = origin exact_ops, box_max = origin exact_ops\<rparr>)
                     (new_node ''r01'' \<lparr>box_min = origin exact_ops, box_max = origin exact_ops\<rparr>) < 0
   \<and> byLevelAndIndex (new_node ''r4'' \<lparr>box_min = origin exact_ops, box_max = origin exact_ops\<rparr>)
                     (new_node ''r3'' \<lparr>box_min = origin exact_ops, box_max = origin exact_ops\<rparr>) > 0"
  using byLevelAndIndex_strict_total_order
    [of "new_node ''r3'' \<lparr>box_min = origin exact_ops, box_max = origin exact_ops\<rparr>"
        "new_node ''r4'' \<lparr>box_min = origin exact_ops, box_max = origin exact_ops\<rparr>"
        "new_node ''r01'' \<lparr>box_min = origin exact_ops, box_max = origin exact_ops\<rparr>"]
  by (simp add: new_node_def byLevelAndIndex_def)

section \<open>Bounding boxes\<close>

lemma vsub_self:
  assumes "f_sub ops (vx a) (vx a) = f_of_int ops 0"
      and "f_sub ops (vy a) (vy a) = f_of_int ops 0"
      and "f_sub ops (vz a) (vz a) = f_of_int ops 0"
  shows "vsub ops a a = origin ops"
  using assms by (simp add: vsub_def origin_def)

text \<open>
  Claim C8, as amended. The offset is the minimum corner of the declared global bounding
  box; the returned global box and the returned tight box (the global box when the document
  has no tight box) are the declared boxes with the offset subtracted, in the arithmetic of
  doubles, from both corners; these are the boxes and the offset the geometry is created
  with. The minimum corner of the returned global box is the origin whenever \<open>x - x = 0\<close>
  for each coordinate \<open>x\<close> of the declared minimum corner, as it is for every finite double.
\<close>

theorem getBoundingBoxes_translated:
  "getBoundingBoxes ops data =
     (box_min (box_of (data_boundingBox data)),
      translate ops (box_of (data_boundingBox data)) (box_min (box_of (data_boundingBox data))),
      translate ops
        (case data_tightBoundingBox data of
           None \<Rightarrow> box_of (data_boundingBox data)
         | Some t \<Rightarrow> box_of t)
        (box_min (box_of (data_boundingBox data))))
   \<and> (f_sub ops (lx (data_boundingBox data)) (lx (data_boundingBox data)) = f_of_int ops 0
        \<and> f_sub ops (ly (data_boundingBox data)) (ly (data_boundingBox data)) = f_of_int ops 0
        \<and> f_sub ops (lz (data_boundingBox data)) (lz (data_boundingBox data)) = f_of_int ops 0
        \<longrightarrow> box_min (fst (snd (getBoundingBoxes ops data))) = origin ops)
   \<and> pco_offset (new_pco ops url data) = fst (getBoundingBoxes ops data)
   \<and> pco_boundingBox (new_pco ops url data) = fst (snd (getBoundingBoxes ops data))
   \<and> pco_tightBoundingBox (new_pco ops url data) = snd (snd (getBoundingBoxes ops data))"
proof -
  let ?b = "box_of (data_boundingBox data)"
  have eq: "getBoundingBoxes ops data =
     (box_min ?b, translate ops ?b (box_min ?b),
      translate ops (case data_tightBoundingBox data of None \<Rightarrow> ?b | Some t \<Rightarrow> box_of t)
        (box_min ?b))"
    by (simp add: getBoundingBoxes_def box_of_def translate_def Let_def split: option.split)
  have org: "box_min (fst (snd (getBoundingBoxes ops data))) = origin ops"
    if "f_sub ops (lx (data_boundingBox data)) (lx (data_boundingBox data)) = f_of_int ops 0
        \<and> f_sub ops (ly (data_boundingBox data)) (ly (data_boundingBox data)) = f_of_int ops 0
        \<and> f_sub ops (lz (data_boundingBox data)) (lz (data_boundingBox data)) = f_of_int ops 0"
    using that unfolding eq by (simp add: translate_def box_of_def vsub_def origin_def)
  have p: "pco_offset (new_pco ops url data) = fst (getBoundingBoxes ops data)"
    "pco_boundingBox (new_pco ops url data) = fst (snd (getBoundingBoxes ops data))"
    "pco_tightBoundingBox (new_pco ops url data) = snd (snd (getBoundingBoxes ops data))"
    by (simp_all add: new_pco_def split: prod.splits)
  from eq org p show ?thesis by blast
qed

text \<open>
  The claim as stated fails for a document whose declared minimum corner is not finite
  (JSON's \<^verbatim>\<open>1e999\<close> parses to \<^verbatim>\<open>Infinity\<close>): infinity minus infinity is NaN, so the
  minimum corner of the returned global box is not the origin.
\<close>

theorem getBoundingBoxes_counterexample:
  "vx (box_min (fst (snd (getBoundingBoxes exact_ops
        ((scenario_doc ''1.4'' [(''r'', 100)])
           \<lparr>data_boundingBox := \<lparr>lx = JPosInf, ly = JFin 0, lz = JFin 0,
                                  ux = JPosInf, uy = JFin 10, uz = JFin 10\<rparr>\<rparr>))))) = JNaN
   \<and> vx (origin exact_ops) = JFin 0"
  by (simp add: getBoundingBoxes_def Let_def scenario_doc_def vsub_def origin_def exact_ops_def)

theorem getBoundingBoxes_translated_witness:
  "f_sub exact_ops (JFin 1) (JFin 1) = f_of_int exact_ops 0
   \<and> f_sub exact_ops (JFin 2) (JFin 2) = f_of_int exact_ops 0
   \<and> f_sub exact_ops (JFin 3) (JFin 3) = f_of_int exact_ops 0
   \<and> getBoundingBoxes exact_ops
        ((scenario_doc ''1.4'' [(''r'', 100)])
           \<lparr>data_boundingBox := \<lparr>lx = JFin 1, ly = JFin 2, lz = JFin 3,
                                  ux = JFin 11, uy = JFin 22, uz = JFin 33\<rparr>,
            data_tightBoundingBox := Some \<lparr>lx = JFin 2, ly = JFin 3, lz = JFin 4,
                                            ux = JFin 10, uy = JFin 20, uz = JFin 30\<rparr>\<rparr>) =
     (\<lparr>vx = JFin 1, vy = JFin 2, vz = JFin 3\<rparr>,
      \<lparr>box_min = \<lparr>vx = JFin 0, vy = JFin 0, vz = JFin 0\<rparr>,
       box_max = \<lparr>vx = JFin 10, vy = JFin 20, vz = JFin 30\<rparr>\<rparr>,
      \<lparr>box_min = \<lparr>vx = JFin 1, vy = JFin 1, vz = JFin 1\<rparr>,
       box_max = \<lparr>vx = JFin 9, vy = JFin 18, vz = JFin 27\<rparr>\<rparr>)
   \<and> box_min (fst (snd (getBoundingBoxes exact_ops
        ((scenario_doc ''1.4'' [(''r'', 100)])
           \<lparr>data_boundingBox := \<lparr>lx = JFin 1, ly = JFin 2, lz = JFin 3,
                                  ux = JFin 11, uy = JFin 22, uz = JFin 33\<rparr>,
            data_tightBoundingBox := Some \<lparr>lx = JFin 2, ly = JFin 3, lz = JFin 4,
                                            ux = JFin 10, uy = JFin 20, uz = JFin 30\<rparr>\<rparr>))))
     = origin exact_ops"
proof -
  let ?d = "(scenario_doc ''1.4'' [(''r'', 100)])
           \<lparr>data_boundingBox := \<lparr>lx = JFin 1, ly = JFin 2, lz = JFin 3,
                                  ux = JFin 11, uy = JFin 22, uz = JFin 33\<rparr>,
            data_tightBoundingBox := Some \<lparr>lx = JFin 2, ly = JFin 3, lz = JFin 4,
                                            ux = JFin 10, uy = JFin 20, uz = JFin 30\<rparr>\<rparr>"
  have z: "f_sub exact_ops (JFin 1) (JFin 1) = f_of_int exact_ops 0"
    "f_sub exact_ops (JFin 2) (JFin 2) = f_of_int exact_ops 0"
    "f_sub exact_ops (JFin 3) (JFin 3) = f_of_int exact_ops 0"
    by (simp_all add: exact_ops_def)
  have b: "data_boundingBox ?d = \<lparr>lx = JFin 1, ly = JFin 2, lz = JFin 3,
                                  ux = JFin 11, uy = JFin 22, uz = JFin 33\<rparr>"
    "data_tightBoundingBox ?d = Some \<lparr>lx = JFin 2, ly = JFin 3, lz = JFin 4,
                                            ux = JFin 10, uy = JFin 20, uz = JFin 30\<rparr>"
    by simp_all
  note t = getBoundingBoxes_translated [of exact_ops ?d "''cloud.js''"]
  from t [THEN conjunct2, THEN conjunct1] z
  have org: "box_min (fst (snd (getBoundingBoxes exact_ops ?d))) = origin exact_ops"
    by (simp add: b)
  from t [THEN conjunct1] have "getBoundingBoxes exact_ops ?d =
     (\<lparr>vx = JFin 1, vy = JFin 2, vz = JFin 3\<rparr>,
      \<lparr>box_min = \<lparr>vx = JFin 0, vy = JFin 0, vz = JFin 0\<rparr>,
       box_max = \<lparr>vx = JFin 10, vy = JFin 20, vz = JFin 30\<rparr>\<rparr>,
      \<lparr>box_min = \<lparr>vx = JFin 1, vy = JFin 1, vz = JFin 1\<rparr>,
       box_max = \<lparr>vx = JFin 9, vy = JFin 18, vz = JFin 27\<rparr>\<rparr>)"
    unfolding b by (simp add: box_of_def translate_def vsub_def exact_ops_def)
  with z org show ?thesis by simp
qed

section \<open>The hierarchy builder\<close>

lemmas ver_defs = new_Version_def upTo_def version_components_def parse_component_def digit_value_def

lemma upTo_14_15: "upTo v ''1.4'' \<Longrightarrow> upTo v ''1.5''"
proof -
  have c4: "version_components ''1.4'' = Some [1, 4]" by (simp add: ver_defs)
  have c5: "version_components ''1.5'' = Some [1, 5]" by (simp add: ver_defs)
  have "le_components cs [1, 4] \<Longrightarrow> le_components cs [1, 5]" for cs
  proof (cases cs)
    case Nil then show ?thesis by simp
  next
    case (Cons a as)
    then show "le_components cs [1, 4] \<Longrightarrow> le_components cs [1, 5]"
      by (cases as) (auto split: if_splits)
  qed
  then show "upTo v ''1.4'' \<Longrightarrow> upTo v ''1.5''"
    by (simp add: upTo_def c4 c5)
qed

lemma hierarchy_step_Inr:
  assumes "hierarchy_step e p entry st = Inr st'"
  shows "\<exists>pa. nodes st (butlast (fst entry)) = Some pa
     \<and> length (heap st') = Suc (length (heap st))
     \<and> nodes st' = (nodes st)(fst entry \<mapsto> length (heap st))"
  using assms
  by (auto simp: hierarchy_step_def Let_def parseName_def split: option.splits)

lemma hierarchy_step_numPoints:
  assumes "hierarchy_step e p entry st = Inr st'" and "a < length (heap st)"
  shows "node_numPoints (heap st' ! a) = node_numPoints (heap st ! a)"
  using assms
  by (auto simp: hierarchy_step_def Let_def addChild_def nth_append nth_list_update
      split: option.splits)

lemma hierarchy_loop_length:
  "hierarchy_loop e p es st = Inr st' \<Longrightarrow> length (heap st') = length (heap st) + length es"
proof (induction es arbitrary: st)
  case Nil then show ?case by simp
next
  case (Cons x xs)
  then show ?case
    by (auto split: sum.splits dest!: hierarchy_step_Inr)
qed

lemma hierarchy_loop_numPoints:
  "hierarchy_loop e p es st = Inr st' \<Longrightarrow> a < length (heap st) \<Longrightarrow>
   node_numPoints (heap st' ! a) = node_numPoints (heap st ! a)"
proof (induction es arbitrary: st)
  case Nil then show ?case by simp
next
  case (Cons x xs)
  from Cons.prems obtain st1 where s1: "hierarchy_step e p x st = Inr st1"
    and l: "hierarchy_loop e p xs st1 = Inr st'"
    by (auto split: sum.splits)
  from hierarchy_step_Inr[OF s1] Cons.prems(2) have "a < length (heap st1)" by auto
  with Cons.IH[OF l] hierarchy_step_numPoints[OF s1 Cons.prems(2)] show ?case by simp
qed

lemma hierarchy_loop_append:
  "hierarchy_loop e p (xs @ ys) st =
     (case hierarchy_loop e p xs st of Inl err \<Rightarrow> Inl err | Inr st' \<Rightarrow> hierarchy_loop e p ys st')"
  by (induction xs arbitrary: st) (auto split: sum.splits)

lemma loadRoot_Inr:
  assumes "loadRoot e p data no_nodes v = Inr (p1, st1)"
  shows "pco_root p1 = Some 0 \<and> length (heap st1) = 1 \<and> nodes st1 = [''r'' \<mapsto> 0]
    \<and> pco_spacing p1 = pco_spacing p
    \<and> (if upTo v ''1.5''
        then \<exists>h0 rest. data_hierarchy data = h0 # rest \<and> node_numPoints (heap st1 ! 0) = snd h0
        else node_numPoints (heap st1 ! 0) = 0)"
  using assms
  by (auto simp: loadRoot_def Let_def no_nodes_def split: if_splits list.splits option.splits)

text \<open>
  Claim C2, as amended. The version gate uses two thresholds. The root's point count is the
  count of the first entry of the flat hierarchy list when the version is at or below 1.5,
  and 0 for every newer version. The rest of the tree is populated inline from the flat
  list, one node per entry, exactly when the version is at or below 1.4; for every newer
  version the root is the only node. A version at or below 1.4 is at or below 1.5.
\<close>

theorem version_gate_thresholds:
  assumes v: "new_Version (data_version data) = Inr v"
      and ok: "parse ops e url data = Inr (p, h)"
  shows "(if upTo v ''1.5''
          then \<exists>h0 rest. data_hierarchy data = h0 # rest
                 \<and> built_root_numPoints (parse ops e url data) = Some (snd h0)
          else built_root_numPoints (parse ops e url data) = Some 0)
       \<and> (if upTo v ''1.4''
          then \<exists>p1 st1. loadRoot e (new_pco ops url data) data no_nodes v = Inr (p1, st1)
                 \<and> loadRemainingHierarchy e p1 data st1 = Inr \<lparr>heap = h, nodes = pco_nodes p\<rparr>
                 \<and> built_node_count (parse ops e url data) = Some (length (data_hierarchy data))
          else built_node_count (parse ops e url data) = Some 1 \<and> pco_nodes p = [''r'' \<mapsto> 0])
       \<and> (upTo v ''1.4'' \<longrightarrow> upTo v ''1.5'')"
proof -
  from ok v obtain p1 st1 where lr: "loadRoot e (new_pco ops url data) data no_nodes v = Inr (p1, st1)"
    by (auto simp: parse_def Let_def split: sum.splits)
  note r = loadRoot_Inr[OF lr]
  have cnt: "built_node_count (parse ops e url data) = Some (length h)"
    by (simp add: ok built_node_count_def)
  have mono: "upTo v ''1.4'' \<longrightarrow> upTo v ''1.5''"
    using upTo_14_15 by blast
  show ?thesis
  proof (cases "upTo v ''1.4''")
    case False
    with ok v lr have pn: "pco_nodes p = nodes st1" and pr: "pco_root p = pco_root p1"
      and hh: "h = heap st1"
      by (auto simp: parse_def Let_def)
    have rt: "built_root_numPoints (parse ops e url data) = Some (node_numPoints (heap st1 ! 0))"
      using r pr hh by (simp add: ok built_root_numPoints_def)
    have A: "if upTo v ''1.5''
          then \<exists>h0 rest. data_hierarchy data = h0 # rest
                 \<and> built_root_numPoints (parse ops e url data) = Some (snd h0)
          else built_root_numPoints (parse ops e url data) = Some 0"
      using r unfolding rt by (simp split: if_splits)
    have B: "built_node_count (parse ops e url data) = Some 1 \<and> pco_nodes p = [''r'' \<mapsto> 0]"
      using r pn hh unfolding cnt by simp
    from A B False mono show ?thesis by simp
  next
    case True
    with ok v lr obtain st2 where l2: "loadRemainingHierarchy e p1 data st1 = Inr st2"
      and pn: "pco_nodes p = nodes st2" and pr: "pco_root p = pco_root p1" and hh: "h = heap st2"
      by (auto simp: parse_def Let_def split: sum.splits)
    from True have u5: "upTo v ''1.5''" by (rule upTo_14_15)
    with r obtain h0 rest where h0: "data_hierarchy data = h0 # rest"
      and np: "node_numPoints (heap st1 ! 0) = snd h0" by auto
    from l2 have loop: "hierarchy_loop e p1 (drop 1 (data_hierarchy data)) st1 = Inr st2"
      by (simp add: loadRemainingHierarchy_def)
    from hierarchy_loop_length[OF loop] r h0
    have len: "length (heap st2) = length (data_hierarchy data)"
      by simp
    from hierarchy_loop_numPoints[OF loop, of 0] r np
    have np2: "node_numPoints (heap st2 ! 0) = snd h0" by simp
    have rt: "built_root_numPoints (parse ops e url data) = Some (snd h0)"
      using r pr hh np2 by (simp add: ok built_root_numPoints_def)
    have st2: "st2 = \<lparr>heap = h, nodes = pco_nodes p\<rparr>" using pn hh by simp
    have A: "\<exists>h0 rest. data_hierarchy data = h0 # rest
                 \<and> built_root_numPoints (parse ops e url data) = Some (snd h0)"
      using h0 rt by blast
    have B: "\<exists>p1 st1. loadRoot e (new_pco ops url data) data no_nodes v = Inr (p1, st1)
                 \<and> loadRemainingHierarchy e p1 data st1 = Inr \<lparr>heap = h, nodes = pco_nodes p\<rparr>
                 \<and> built_node_count (parse ops e url data) = Some (length (data_hierarchy data))"
    proof -
      have "length h = length (data_hierarchy data)" using len hh by simp
      with lr l2 show ?thesis unfolding cnt st2 by auto
    qed
    from A B True u5 show ?thesis by simp
  qed
qed

lemma v15:
  "new_Version ''1.5'' = Inr (Version [1, 5])"
  "new_Version ''1.5'' = Inr (Version [Suc 0, 5])"
  "upTo (Version [1, 5]) ''1.4'' = False" "upTo (Version [1, 5]) ''1.5'' = True"
  "upTo (Version [Suc 0, 5]) ''1.4'' = False" "upTo (Version [Suc 0, 5]) ''1.5'' = True"
  by (simp_all add: ver_defs)

lemma v14:
  "new_Version ''1.4'' = Inr (Version [1, 4])"
  "new_Version ''1.4'' = Inr (Version [Suc 0, 4])"
  "upTo (Version [1, 4]) ''1.4'' = True" "upTo (Version [1, 4]) ''1.5'' = True"
  "upTo (Version [Suc 0, 4]) ''1.4'' = True" "upTo (Version [Suc 0, 4]) ''1.5'' = True"
  by (simp_all add: ver_defs)

lemma doc_simps:
  "data_version (scenario_doc ver h) = ver" "data_hierarchy (scenario_doc ver h) = h"
  "data_spacing (scenario_doc ver h) = 1" "root_load scenario_env = None"
  "createChildAABB scenario_env = (\<lambda>b i. b)"
  by (simp_all add: scenario_doc_def scenario_env_def)

text \<open>
  The claim as stated fails for version 1.5: it is newer than the threshold 1.4 that
  decides the inline population (the root is the only node built), and yet the root's
  point count is 100, the count of the first entry, not 0.
\<close>

theorem version_gate_counterexample:
  "new_Version ''1.5'' = Inr (Version [1, 5])
   \<and> upTo (Version [1, 5]) ''1.4'' = False
   \<and> built_root_numPoints
       (parse exact_ops scenario_env ''cloud.js'' (scenario_doc ''1.5'' [(''r'', 100), (''r0'', 40), (''r03'', 10)]))
     = Some 100
   \<and> built_node_count
       (parse exact_ops scenario_env ''cloud.js'' (scenario_doc ''1.5'' [(''r'', 100), (''r0'', 40), (''r03'', 10)]))
     = Some 1"
  by (simp add: built_root_numPoints_def built_node_count_def parse_def loadRoot_def Let_def
      no_nodes_def doc_simps v15)

theorem version_gate_thresholds_witness:
  "new_Version (data_version (scenario_doc ''1.4'' [(''r'', 100), (''r0'', 40), (''r03'', 10)]))
     = Inr (Version [1, 4])
   \<and> built_root_numPoints
       (parse exact_ops scenario_env ''cloud.js'' (scenario_doc ''1.4'' [(''r'', 100), (''r0'', 40), (''r03'', 10)]))
     = Some 100
   \<and> built_node_count
       (parse exact_ops scenario_env ''cloud.js'' (scenario_doc ''1.4'' [(''r'', 100), (''r0'', 40), (''r03'', 10)]))
     = Some 3"
proof -
  let ?d = "scenario_doc ''1.4'' [(''r'', 100), (''r0'', 40), (''r03'', 10)]"
  have v: "new_Version (data_version ?d) = Inr (Version [1, 4])"
    by (simp add: doc_simps v14)
  have "built_node_count (parse exact_ops scenario_env ''cloud.js'' ?d) \<noteq> None"
    by (simp add: built_node_count_def parse_def loadRoot_def Let_def no_nodes_def doc_simps v14
        loadRemainingHierarchy_def hierarchy_step_def parseName_def)
  then obtain p h where ok: "parse exact_ops scenario_env ''cloud.js'' ?d = Inr (p, h)"
    by (cases "parse exact_ops scenario_env ''cloud.js'' ?d") (auto simp: built_node_count_def)
  from version_gate_thresholds [OF v ok] v show ?thesis
    by (auto simp: v14 doc_simps numeral_3_eq_3)
qed

text \<open>
  Claim C5, as amended. In the legacy build, when the parent name of an entry is not in the
  node map at the entry's turn (the entries \<open>pre\<close> before it were built into the state
  \<open>st\<close>), the build throws a TypeError, the one for the property read of the missing
  parent, and the whole load is rejected with it: no geometry and no tree is returned.
\<close>

theorem missing_parent_aborts:
  assumes "new_Version (data_version data) = Inr v"
      and "upTo v ''1.4''"
      and "loadRoot e (new_pco ops url data) data no_nodes v = Inr (p1, st1)"
      and "drop 1 (data_hierarchy data) = pre @ entry # post"
      and "hierarchy_loop e p1 pre st1 = Inr st"
      and "nodes st (pn_parentName (parseName (fst entry))) = None"
  shows "loadRemainingHierarchy e p1 data st1 = Inl TypeError \<and> parse ops e url data = Inl TypeError"
proof -
  from assms(6) have "hierarchy_step e p1 entry st = Inl TypeError"
    by (simp add: hierarchy_step_def Let_def)
  with assms(4,5) have "loadRemainingHierarchy e p1 data st1 = Inl TypeError"
    by (simp add: loadRemainingHierarchy_def hierarchy_loop_append)
  with assms(1,2,3) show ?thesis
    by (simp add: parse_def Let_def)
qed

text \<open>
  The claim as stated names the error a FormatError. The sources have no such error: for
  the list \<^verbatim>\<open>[["r", 100], ["r00", 5]]\<close>, whose second entry has the missing parent
  \<^verbatim>\<open>r0\<close>, the load is rejected with the TypeError of the runtime.
\<close>

theorem missing_parent_counterexample:
  "parse exact_ops scenario_env ''cloud.js'' (scenario_doc ''1.4'' [(''r'', 100), (''r00'', 5)])
     = Inl TypeError
   \<and> parse exact_ops scenario_env ''cloud.js'' (scenario_doc ''1.4'' [(''r'', 100), (''r00'', 5)])
     \<noteq> Inl FormatError"
  by (simp add: parse_def loadRoot_def Let_def no_nodes_def doc_simps v14
      loadRemainingHierarchy_def hierarchy_step_def parseName_def)

theorem missing_parent_aborts_witness:
  "new_Version (data_version (scenario_doc ''1.4'' [(''r'', 100), (''r03'', 10), (''r0'', 40)]))
     = Inr (Version [1, 4])
   \<and> upTo (Version [1, 4]) ''1.4''
   \<and> drop 1 (data_hierarchy (scenario_doc ''1.4'' [(''r'', 100), (''r03'', 10), (''r0'', 40)]))
     = [] @ (''r03'', 10) # [(''r0'', 40)]
   \<and> parse exact_ops scenario_env ''cloud.js'' (scenario_doc ''1.4'' [(''r'', 100), (''r03'', 10), (''r0'', 40)])
     = Inl TypeError"
proof -
  let ?d = "scenario_doc ''1.4'' [(''r'', 100), (''r03'', 10), (''r0'', 40)]"
  have v: "new_Version (data_version ?d) = Inr (Version [1, 4])"
    by (simp add: doc_simps v14)
  have u: "upTo (Version [1, 4]) ''1.4''" by (simp add: v14)
  obtain p1 st1 where lr: "loadRoot scenario_env (new_pco exact_ops ''cloud.js'' ?d) ?d no_nodes (Version [1, 4])
      = Inr (p1, st1)"
    by (simp add: loadRoot_def Let_def doc_simps v14)
  have dr: "drop 1 (data_hierarchy ?d) = [] @ (''r03'', 10) # [(''r0'', 40)]"
    by (simp add: doc_simps)
  have lp: "hierarchy_loop scenario_env p1 [] st1 = Inr st1" by simp
  have np: "nodes st1 (pn_parentName (parseName (fst (''r03'', 10::int)))) = None"
    using loadRoot_Inr [OF lr] by (simp add: parseName_def)
  from missing_parent_aborts [OF v u lr dr lp np] v u dr show ?thesis by simp
qed

lemma parents_first_snoc:
  "parents_first seen (es @ [x]) \<longleftrightarrow>
     parents_first seen es \<and> butlast (fst x) \<in> set seen \<union> fst ` set es"
  by (induction es arbitrary: seen) auto

lemma digit_value_inj:
  assumes "digit_value c = Some d" and "digit_value c' = Some d"
  shows "c = c'"
proof -
  from assms have "(of_char c :: nat) - 48 = of_char c' - 48"
    and "48 \<le> (of_char c :: nat)" and "48 \<le> (of_char c' :: nat)"
    by (auto simp: digit_value_def Let_def split: if_splits)
  then have "(of_char c :: nat) = of_char c'" by arith
  then show ?thesis by simp
qed

lemma getIndexFromName_inj:
  assumes "getIndexFromName a = getIndexFromName b" and "getIndexFromName a \<noteq> None"
      and "butlast a = butlast b"
  shows "a = b"
proof -
  from assms(1,2) have ne: "a \<noteq> []" "b \<noteq> []"
    by (auto simp: getIndexFromName_def split: if_splits)
  with assms(1,2) obtain d where "digit_value (last a) = Some d" "digit_value (last b) = Some d"
    by (auto simp: getIndexFromName_def)
  then have "last a = last b" by (rule digit_value_inj)
  with assms(3) ne show ?thesis
    by (metis append_butlast_last_id)
qed

lemma hierarchy_step_effect:
  assumes par: "nodes st (butlast (fst x)) = Some pa" and pa: "pa < length (heap st)"
  shows "\<exists>st'. hierarchy_step e p x st = Inr st'
     \<and> length (heap st') = Suc (length (heap st))
     \<and> nodes st' = (nodes st)(fst x \<mapsto> length (heap st))
     \<and> (\<forall>a<length (heap st).
           node_name (heap st' ! a) = node_name (heap st ! a)
           \<and> node_level (heap st' ! a) = node_level (heap st ! a)
           \<and> node_numPoints (heap st' ! a) = node_numPoints (heap st ! a)
           \<and> node_spacing (heap st' ! a) = node_spacing (heap st ! a)
           \<and> node_children (heap st' ! a) =
               (if a = pa
                then (node_children (heap st ! a))(getIndexFromName (fst x) \<mapsto> length (heap st))
                else node_children (heap st ! a)))
     \<and> node_name (heap st' ! length (heap st)) = fst x
     \<and> node_level (heap st' ! length (heap st)) = int (length (fst x)) - 1
     \<and> node_numPoints (heap st' ! length (heap st)) = snd x
     \<and> node_spacing (heap st' ! length (heap st)) =
         pco_spacing p / power_int 2 (int (length (fst x)) - 1)"
  using assms
  by (simp add: hierarchy_step_def Let_def parseName_def addChild_def new_node_def
      nth_append nth_list_update)


lemma tree_built_step:
  assumes inv: "tree_built p es st"
      and par: "butlast (fst x) \<in> insert ''r'' (fst ` set es)"
      and fresh: "fst x \<notin> fst ` set es"
  shows "\<exists>st'. hierarchy_step e p x st = Inr st' \<and> tree_built p (es @ [x]) st'"
proof -
  let ?n = "length (heap st)"
  from inv have len: "?n = Suc (length es)"
    and r0: "nodes st ''r'' = Some 0"
    and rn: "node_name (heap st ! 0) = ''r''"
    and e0: "nodes st [] = None"
    and dm: "dom (nodes st) = insert ''r'' (fst ` set es)"
    by (simp_all add: tree_built_def)
  from inv have wf: "a < ?n \<and> node_name (heap st ! a) = nm" if "nodes st nm = Some a" for nm a
    using that unfolding tree_built_def by blast
  from inv have ents: "entry_built p st (Suc i) (es ! i)" if "i < length es" for i
    using that unfolding tree_built_def by blast
  from par dm obtain pa where pa: "nodes st (butlast (fst x)) = Some pa"
    by (metis domD)
  from wf[OF pa] have pal: "pa < ?n" and pan: "node_name (heap st ! pa) = butlast (fst x)"
    by auto
  from hierarchy_step_effect[OF pa pal, of e p] obtain st' where
    step: "hierarchy_step e p x st = Inr st'"
    and len': "length (heap st') = Suc ?n"
    and nodes': "nodes st' = (nodes st)(fst x \<mapsto> ?n)"
    and old: "\<forall>a<?n.
           node_name (heap st' ! a) = node_name (heap st ! a)
           \<and> node_level (heap st' ! a) = node_level (heap st ! a)
           \<and> node_numPoints (heap st' ! a) = node_numPoints (heap st ! a)
           \<and> node_spacing (heap st' ! a) = node_spacing (heap st ! a)
           \<and> node_children (heap st' ! a) =
               (if a = pa
                then (node_children (heap st ! a))(getIndexFromName (fst x) \<mapsto> ?n)
                else node_children (heap st ! a))"
    and new: "node_name (heap st' ! ?n) = fst x"
      "node_level (heap st' ! ?n) = int (length (fst x)) - 1"
      "node_numPoints (heap st' ! ?n) = snd x"
      "node_spacing (heap st' ! ?n) = pco_spacing p / power_int 2 (int (length (fst x)) - 1)"
    by blast
  have xne: "fst x \<noteq> []"
    using pa e0 by auto
  have xnr: "fst x \<noteq> ''r''"
    using pa e0 by auto
  have xfresh: "nodes st (fst x) = None"
    using dm fresh xnr by (metis domIff insert_iff)
  have bx: "butlast (fst x) \<noteq> fst x"
    using xne by (metis append_butlast_last_id append_self_conv not_Cons_self2)
  have c1: "length (heap st') = Suc (length (es @ [x]))"
    using len len' by simp
  have c2: "nodes st' ''r'' = Some 0"
    using nodes' r0 xnr by simp
  have c3: "node_name (heap st' ! 0) = ''r''"
    using old rn len by simp
  have c4: "nodes st' [] = None"
    using nodes' e0 xne by simp
  have c5: "dom (nodes st') = insert ''r'' (fst ` set (es @ [x]))"
    using nodes' dm by auto
  have c6: "a < length (heap st') \<and> node_name (heap st' ! a) = nm"
    if h: "nodes st' nm = Some a" for nm a
  proof (cases "nm = fst x")
    case True
    with h nodes' have "a = ?n" by simp
    with new(1) len' True show ?thesis by simp
  next
    case False
    with h nodes' have "nodes st nm = Some a" by simp
    from wf[OF this] old len' show ?thesis by simp
  qed
  have c7: "entry_built p st' (Suc i) ((es @ [x]) ! i)" if i: "i < length (es @ [x])" for i
  proof (cases "i < length es")
    case True
    let ?en = "es ! i"
    from True have en: "(es @ [x]) ! i = ?en" by (simp add: nth_append)
    from True have mem: "fst ?en \<in> fst ` set es" by simp
    with fresh have ne: "fst ?en \<noteq> fst x" by metis
    from True len have si: "Suc i < ?n" by simp
    from ents[OF True] obtain pai where
      b: "node_name (heap st ! Suc i) = fst ?en" "nodes st (fst ?en) = Some (Suc i)"
        "node_level (heap st ! Suc i) = int (length (fst ?en)) - 1"
        "node_numPoints (heap st ! Suc i) = snd ?en"
        "node_spacing (heap st ! Suc i) = pco_spacing p / power_int 2 (int (length (fst ?en)) - 1)"
      and pai: "pai < ?n" "nodes st (butlast (fst ?en)) = Some pai"
        "getIndexFromName (fst ?en) \<noteq> None \<longrightarrow>
           node_children (heap st ! pai) (getIndexFromName (fst ?en)) = Some (Suc i)"
      unfolding entry_built_def by blast
    from pai(2) xfresh have "butlast (fst ?en) \<noteq> fst x" by auto
    with pai(2) nodes' have p1: "nodes st' (butlast (fst ?en)) = Some pai" by simp
    have p2: "node_children (heap st' ! pai) (getIndexFromName (fst ?en)) = Some (Suc i)"
      if dig: "getIndexFromName (fst ?en) \<noteq> None"
    proof (cases "pai = pa")
      case False
      with old pai(1,3) dig show ?thesis by simp
    next
      case eq: True
      from wf[OF pai(2)] pan eq have bl: "butlast (fst ?en) = butlast (fst x)" by simp
      have "getIndexFromName (fst x) \<noteq> getIndexFromName (fst ?en)"
      proof
        assume "getIndexFromName (fst x) = getIndexFromName (fst ?en)"
        from getIndexFromName_inj[OF this[symmetric] dig bl] ne show False by simp
      qed
      with old pai(1,3) eq dig show ?thesis by simp
    qed
    from old si b ne nodes' have
      "node_name (heap st' ! Suc i) = fst ?en" "nodes st' (fst ?en) = Some (Suc i)"
      "node_level (heap st' ! Suc i) = int (length (fst ?en)) - 1"
      "node_numPoints (heap st' ! Suc i) = snd ?en"
      "node_spacing (heap st' ! Suc i) = pco_spacing p / power_int 2 (int (length (fst ?en)) - 1)"
      by simp_all
    moreover from pai(1) len' have "pai < length (heap st')" by simp
    ultimately show ?thesis
      unfolding entry_built_def en using p1 p2 by blast
  next
    case False
    with i have ie: "i = length es" by simp
    with len have si: "Suc i = ?n" by simp
    from ie have en: "(es @ [x]) ! i = x" by simp
    from pa bx nodes' have p1: "nodes st' (butlast (fst x)) = Some pa" by simp
    from old pal have p2: "getIndexFromName (fst x) \<noteq> None \<longrightarrow>
        node_children (heap st' ! pa) (getIndexFromName (fst x)) = Some ?n"
      by simp
    from pal len' have p3: "pa < length (heap st')" by simp
    have "nodes st' (fst x) = Some ?n" using nodes' by simp
    with new p1 p2 p3 show ?thesis
      unfolding entry_built_def en si by blast
  qed
  from c1 c2 c3 c4 c5 c6 c7 have "tree_built p (es @ [x]) st'"
    unfolding tree_built_def by blast
  with step show ?thesis by blast
qed

lemma hierarchy_loop_builds:
  assumes init: "tree_built p [] st0"
  shows "parents_first [''r''] es \<Longrightarrow> distinct (map fst es) \<Longrightarrow>
         \<exists>st. hierarchy_loop e p es st0 = Inr st \<and> tree_built p es st"
proof (induction es rule: rev_induct)
  case Nil
  with init show ?case by simp
next
  case (snoc x es)
  from snoc.prems(1) have pf: "parents_first [''r''] es"
    and par: "butlast (fst x) \<in> insert ''r'' (fst ` set es)"
    by (auto simp: parents_first_snoc)
  from snoc.prems(2) have d: "distinct (map fst es)" and fresh: "fst x \<notin> fst ` set es"
    by auto
  from snoc.IH[OF pf d] obtain st where
    lp: "hierarchy_loop e p es st0 = Inr st" and tb: "tree_built p es st" by blast
  from tree_built_step[OF tb par fresh, of e] obtain st' where
    "hierarchy_step e p x st = Inr st'" "tree_built p (es @ [x]) st'" by blast
  with lp show ?case
    by (simp add: hierarchy_loop_append)
qed


lemma hierarchy_step_spacing:
  assumes "hierarchy_step e p entry st = Inr st'" and "a < length (heap st)"
  shows "node_spacing (heap st' ! a) = node_spacing (heap st ! a)"
  using assms
  by (auto simp: hierarchy_step_def Let_def addChild_def nth_append nth_list_update
      split: option.splits)

lemma hierarchy_loop_spacing:
  "hierarchy_loop e p es st = Inr st' \<Longrightarrow> a < length (heap st) \<Longrightarrow>
   node_spacing (heap st' ! a) = node_spacing (heap st ! a)"
proof (induction es arbitrary: st)
  case Nil then show ?case by simp
next
  case (Cons x xs)
  from Cons.prems obtain st1 where s1: "hierarchy_step e p x st = Inr st1"
    and l: "hierarchy_loop e p xs st1 = Inr st'"
    by (auto split: sum.splits)
  from hierarchy_step_Inr[OF s1] Cons.prems(2) have "a < length (heap st1)" by auto
  with Cons.IH[OF l] hierarchy_step_spacing[OF s1 Cons.prems(2)] show ?case by simp
qed

lemma loadRoot_built:
  assumes "loadRoot e p data no_nodes v = Inr (p1, st1)"
  shows "tree_built p1 [] st1 \<and> pco_spacing p1 = pco_spacing p
     \<and> node_spacing (heap st1 ! 0) = pco_spacing p \<and> pco_root p1 = Some 0"
  using assms
  by (auto simp: loadRoot_def Let_def no_nodes_def tree_built_def new_node_def
      split: if_splits list.splits option.splits)

lemma loadRoot_succeeds:
  assumes "root_load e = None" and "data_hierarchy data \<noteq> []"
  shows "\<exists>p1 st1. loadRoot e p data st v = Inr (p1, st1)"
  using assms
  by (auto simp: loadRoot_def Let_def split: list.splits)

lemma tree_built_names:
  assumes tb: "tree_built p es st" and d: "distinct (map fst es)"
  shows "map node_name (heap st) = ''r'' # map fst es" and "distinct (map node_name (heap st))"
proof -
  from tb have len: "length (heap st) = Suc (length es)"
    and r0: "nodes st ''r'' = Some 0" and rn: "node_name (heap st ! 0) = ''r''"
    by (simp_all add: tree_built_def)
  from tb have ents: "entry_built p st (Suc i) (es ! i)" if "i < length es" for i
    using that unfolding tree_built_def by blast
  show eq: "map node_name (heap st) = ''r'' # map fst es"
  proof (rule nth_equalityI)
    show "length (map node_name (heap st)) = length (''r'' # map fst es)"
      using len by simp
  next
    fix i assume "i < length (map node_name (heap st))"
    with len have i: "i < Suc (length es)" by simp
    show "map node_name (heap st) ! i = (''r'' # map fst es) ! i"
    proof (cases i)
      case 0
      with rn len show ?thesis by simp
    next
      case (Suc j)
      with i have j: "j < length es" by simp
      from ents[OF j] have "node_name (heap st ! Suc j) = fst (es ! j)"
        by (simp add: entry_built_def)
      with Suc j len show ?thesis by simp
    qed
  qed
  have "''r'' \<notin> set (map fst es)"
  proof
    assume "''r'' \<in> set (map fst es)"
    then obtain j where j: "j < length es" and e: "fst (es ! j) = ''r''"
      by (auto simp: in_set_conv_nth)
    from ents[OF j] have "nodes st (fst (es ! j)) = Some (Suc j)"
      by (simp add: entry_built_def)
    with e r0 show False by simp
  qed
  with d show "distinct (map node_name (heap st))"
    unfolding eq by simp
qed

text \<open>
  Claim C3, as amended. For a legacy document (version at or below 1.4) whose flat hierarchy
  list is parent-before-child and whose names after the first are pairwise distinct: the
  load succeeds when the root's payload load resolves and the list is not empty, and in
  every successful load each entry after the first, the \<open>i\<close>-th, yields exactly one node
  (the node at address \<open>i\<close> of a heap that has one node per entry); it is registered in the
  name-to-node map under its name, has \<open>level = length name - 1\<close>, the entry's point
  count and spacing \<open>root spacing / 2 ^ level\<close>, and its parent is the node registered
  under its name minus the last character, to which it is attached at the child slot whose
  index is the numeric value of that character (when the character is a decimal digit and
  so has one); no two nodes share a name.
\<close>

theorem legacy_hierarchy_build:
  assumes v: "new_Version (data_version data) = Inr v"
      and legacy: "upTo v ''1.4''"
      and pbc: "parent_before_child (data_hierarchy data)"
      and dist: "distinct (map fst (drop 1 (data_hierarchy data)))"
  shows "(root_load e = None \<and> data_hierarchy data \<noteq> [] \<longrightarrow>
            (\<exists>p h. parse ops e url data = Inr (p, h)))
       \<and> (\<forall>p h. parse ops e url data = Inr (p, h) \<longrightarrow>
            length h = length (data_hierarchy data)
            \<and> pco_root p = Some 0
            \<and> node_spacing (h ! 0) = data_spacing data
            \<and> distinct (map node_name h)
            \<and> (\<forall>i. 0 < i \<and> i < length (data_hierarchy data) \<longrightarrow>
                  pco_nodes p (fst (data_hierarchy data ! i)) = Some i
                  \<and> node_name (h ! i) = fst (data_hierarchy data ! i)
                  \<and> node_level (h ! i) = int (length (fst (data_hierarchy data ! i))) - 1
                  \<and> node_numPoints (h ! i) = snd (data_hierarchy data ! i)
                  \<and> node_spacing (h ! i) = node_spacing (h ! 0) / power_int 2 (node_level (h ! i))
                  \<and> (\<exists>pa<length h.
                        pco_nodes p (butlast (fst (data_hierarchy data ! i))) = Some pa
                        \<and> (getIndexFromName (fst (data_hierarchy data ! i)) \<noteq> None \<longrightarrow>
                             node_children (h ! pa)
                               (getIndexFromName (fst (data_hierarchy data ! i))) = Some i))))"
proof -
  let ?es = "drop 1 (data_hierarchy data)"
  let ?p0 = "new_pco ops url data"
  have sp0: "pco_spacing ?p0 = data_spacing data"
    by (simp add: new_pco_def split: prod.splits)
  have built: "\<exists>st. hierarchy_loop e p1 ?es st1 = Inr st \<and> tree_built p1 ?es st"
    if "tree_built p1 [] st1" for p1 st1
    using hierarchy_loop_builds[OF that, of ?es e] pbc dist
    by (simp add: parent_before_child_def)
  have A: "\<exists>p h. parse ops e url data = Inr (p, h)"
    if "root_load e = None" and "data_hierarchy data \<noteq> []"
  proof -
    from loadRoot_succeeds[OF that] obtain p1 st1 where
      lr: "loadRoot e ?p0 data no_nodes v = Inr (p1, st1)" by blast
    from loadRoot_built[OF lr] built obtain st where
      "hierarchy_loop e p1 ?es st1 = Inr st" by blast
    with lr v legacy show ?thesis
      by (simp add: parse_def Let_def loadRemainingHierarchy_def)
  qed
  have B: "length h = length (data_hierarchy data)
            \<and> pco_root p = Some 0
            \<and> node_spacing (h ! 0) = data_spacing data
            \<and> distinct (map node_name h)
            \<and> (\<forall>i. 0 < i \<and> i < length (data_hierarchy data) \<longrightarrow>
                  pco_nodes p (fst (data_hierarchy data ! i)) = Some i
                  \<and> node_name (h ! i) = fst (data_hierarchy data ! i)
                  \<and> node_level (h ! i) = int (length (fst (data_hierarchy data ! i))) - 1
                  \<and> node_numPoints (h ! i) = snd (data_hierarchy data ! i)
                  \<and> node_spacing (h ! i) = node_spacing (h ! 0) / power_int 2 (node_level (h ! i))
                  \<and> (\<exists>pa<length h.
                        pco_nodes p (butlast (fst (data_hierarchy data ! i))) = Some pa
                        \<and> (getIndexFromName (fst (data_hierarchy data ! i)) \<noteq> None \<longrightarrow>
                             node_children (h ! pa)
                               (getIndexFromName (fst (data_hierarchy data ! i))) = Some i)))"
    if ok: "parse ops e url data = Inr (p, h)" for p h
  proof -
    from ok v legacy obtain p1 st1 st2 where
      lr: "loadRoot e ?p0 data no_nodes v = Inr (p1, st1)"
      and lp: "hierarchy_loop e p1 ?es st1 = Inr st2"
      and pn: "pco_nodes p = nodes st2" and pr: "pco_root p = pco_root p1" and hh: "h = heap st2"
      by (auto simp: parse_def Let_def loadRemainingHierarchy_def split: sum.splits)
    note r = loadRoot_built[OF lr]
    from r have "tree_built p1 [] st1" by simp
    from built[OF this] lp have tb: "tree_built p1 ?es st2" by force
    from r sp0 have sp1: "pco_spacing p1 = data_spacing data"
      and rs: "node_spacing (heap st1 ! 0) = data_spacing data" by simp_all
    from r have l1: "length (heap st1) = 1" by (simp add: tree_built_def)
    from loadRoot_Inr[OF lr] legacy upTo_14_15 obtain h0 rest where
      hs: "data_hierarchy data = h0 # rest" by (auto split: if_splits)
    from tb hs hh have len: "length h = length (data_hierarchy data)"
      by (simp add: tree_built_def)
    from hierarchy_loop_spacing[OF lp, of 0] l1 rs hh
    have s0: "node_spacing (h ! 0) = data_spacing data" by simp
    from tree_built_names(2)[OF tb dist] hh have dn: "distinct (map node_name h)" by simp
    have ent: "pco_nodes p (fst (data_hierarchy data ! i)) = Some i
                  \<and> node_name (h ! i) = fst (data_hierarchy data ! i)
                  \<and> node_level (h ! i) = int (length (fst (data_hierarchy data ! i))) - 1
                  \<and> node_numPoints (h ! i) = snd (data_hierarchy data ! i)
                  \<and> node_spacing (h ! i) = node_spacing (h ! 0) / power_int 2 (node_level (h ! i))
                  \<and> (\<exists>pa<length h.
                        pco_nodes p (butlast (fst (data_hierarchy data ! i))) = Some pa
                        \<and> (getIndexFromName (fst (data_hierarchy data ! i)) \<noteq> None \<longrightarrow>
                             node_children (h ! pa)
                               (getIndexFromName (fst (data_hierarchy data ! i))) = Some i))"
      if i: "0 < i \<and> i < length (data_hierarchy data)" for i
    proof -
      from i obtain j where ij: "i = Suc j" and j: "j < length rest"
        using hs by (cases i) auto
      from hs have en: "data_hierarchy data ! Suc j = rest ! j" by simp
      from tb hs j have "entry_built p1 st2 (Suc j) (rest ! j)"
        by (simp add: tree_built_def)
      with s0 show ?thesis
        unfolding ij en entry_built_def hh pn sp1 by auto
    qed
    from len pr r s0 dn ent show ?thesis by simp
  qed
  from A B show ?thesis by blast
qed


text \<open>
  The claim as stated fails when a name occurs twice in a parent-before-child list: two
  nodes named \<^verbatim>\<open>r0\<close> are built, and the node registered under \<^verbatim>\<open>r0\<close> has 50 points, so
  the entry \<^verbatim>\<open>["r0", 40]\<close> has no registered node with its count.
\<close>

theorem legacy_hierarchy_counterexample:
  "parent_before_child [(''r'', 100), (''r0'', 40), (''r0'', 50)]
   \<and> upTo (Version [1, 4]) ''1.4''
   \<and> built_names
       (parse exact_ops scenario_env ''cloud.js'' (scenario_doc ''1.4'' [(''r'', 100), (''r0'', 40), (''r0'', 50)]))
     = Some [''r'', ''r0'', ''r0'']
   \<and> registered_numPoints
       (parse exact_ops scenario_env ''cloud.js'' (scenario_doc ''1.4'' [(''r'', 100), (''r0'', 40), (''r0'', 50)]))
       ''r0''
     = Some 50"
  by (simp add: parent_before_child_def built_names_def registered_numPoints_def parse_def
      loadRoot_def Let_def no_nodes_def doc_simps v14 loadRemainingHierarchy_def
      hierarchy_step_def parseName_def addChild_def new_node_def)

theorem legacy_hierarchy_build_witness:
  "new_Version (data_version (scenario_doc ''1.4'' [(''r'', 100), (''r0'', 40), (''r03'', 10)]))
     = Inr (Version [1, 4])
   \<and> upTo (Version [1, 4]) ''1.4''
   \<and> parent_before_child (data_hierarchy (scenario_doc ''1.4'' [(''r'', 100), (''r0'', 40), (''r03'', 10)]))
   \<and> distinct (map fst (drop 1 (data_hierarchy (scenario_doc ''1.4'' [(''r'', 100), (''r0'', 40), (''r03'', 10)]))))
   \<and> getIndexFromName ''r03'' = Some 3
   \<and> (\<exists>p h. parse exact_ops scenario_env ''cloud.js''
               (scenario_doc ''1.4'' [(''r'', 100), (''r0'', 40), (''r03'', 10)]) = Inr (p, h)
          \<and> length h = 3
          \<and> pco_nodes p ''r03'' = Some 2
          \<and> node_name (h ! 2) = ''r03''
          \<and> node_level (h ! 2) = 2
          \<and> node_numPoints (h ! 2) = 10
          \<and> node_spacing (h ! 2) = 1 / 4
          \<and> pco_nodes p ''r0'' = Some 1
          \<and> node_children (h ! 1) (Some 3) = Some 2)"
proof -
  let ?hs = "[(''r'', 100), (''r0'', 40), (''r03'', 10)] :: (string \<times> int) list"
  let ?d = "scenario_doc ''1.4'' ?hs"
  have v: "new_Version (data_version ?d) = Inr (Version [1, 4])"
    by (simp add: doc_simps v14)
  have u: "upTo (Version [1, 4]) ''1.4''" by (simp add: v14)
  have pbc: "parent_before_child (data_hierarchy ?d)"
    by (simp add: doc_simps parent_before_child_def)
  have dist: "distinct (map fst (drop 1 (data_hierarchy ?d)))"
    by (simp add: doc_simps)
  have dig: "getIndexFromName ''r03'' = Some 3"
    by (simp add: getIndexFromName_def digit_value_def)
  note t = legacy_hierarchy_build
    [where ops = exact_ops and e = scenario_env and url = "''cloud.js''", OF v u pbc dist]
  from t obtain p h where ok: "parse exact_ops scenario_env ''cloud.js'' ?d = Inr (p, h)"
    by (auto simp: doc_simps)
  from t ok have len: "length h = length (data_hierarchy ?d)"
    and s0: "node_spacing (h ! 0) = data_spacing ?d"
    and e2: "0 < (2::nat) \<and> 2 < length (data_hierarchy ?d) \<longrightarrow>
                  pco_nodes p (fst (data_hierarchy ?d ! 2)) = Some 2
                  \<and> node_name (h ! 2) = fst (data_hierarchy ?d ! 2)
                  \<and> node_level (h ! 2) = int (length (fst (data_hierarchy ?d ! 2))) - 1
                  \<and> node_numPoints (h ! 2) = snd (data_hierarchy ?d ! 2)
                  \<and> node_spacing (h ! 2) = node_spacing (h ! 0) / power_int 2 (node_level (h ! 2))
                  \<and> (\<exists>pa<length h.
                        pco_nodes p (butlast (fst (data_hierarchy ?d ! 2))) = Some pa
                        \<and> (getIndexFromName (fst (data_hierarchy ?d ! 2)) \<noteq> None \<longrightarrow>
                             node_children (h ! pa)
                               (getIndexFromName (fst (data_hierarchy ?d ! 2))) = Some 2))"
    and e1: "0 < (1::nat) \<and> 1 < length (data_hierarchy ?d) \<longrightarrow>
                  pco_nodes p (fst (data_hierarchy ?d ! 1)) = Some 1"
    by blast+
  from e1 have n1: "pco_nodes p ''r0'' = Some 1" by (simp add: doc_simps)
  from e2 s0 n1 have
    "pco_nodes p ''r03'' = Some 2 \<and> node_name (h ! 2) = ''r03'' \<and> node_level (h ! 2) = 2
     \<and> node_numPoints (h ! 2) = 10 \<and> node_spacing (h ! 2) = 1 / 4
     \<and> node_children (h ! 1) (Some 3) = Some 2"
    by (auto simp: doc_simps getIndexFromName_def digit_value_def)
  with ok len n1 v u pbc dist dig show ?thesis
    by (simp add: doc_simps)
qed

section \<open>The decoder\<close>

lemma rd_bind_dv_get:
  "rd_bind (dv_get buf off w conv) f tr =
     (if off + w \<le> length buf
      then f (conv (take w (drop off buf))) (tr @ [off..<off + w])
      else (Inl RangeError, tr))"
  by (simp add: rd_bind_def dv_get_def)

lemmas getter_defs = getInt32_def getUint16_def getUint8_def

lemma safe_return: "safe_reader buf (rd_return x)"
  by (simp add: safe_reader_def rd_return_def)

lemma safe_dv_get: "safe_reader buf (dv_get buf off w conv)"
  by (auto simp: safe_reader_def dv_get_def list_all_iff)

lemma safe_bind:
  assumes "safe_reader buf m" and "\<And>x. safe_reader buf (f x)"
  shows "safe_reader buf (rd_bind m f)"
  unfolding safe_reader_def
proof (intro allI impI)
  fix tr assume tr: "list_all (\<lambda>j. j < length buf) tr"
  show "list_all (\<lambda>j. j < length buf) (snd (rd_bind m f tr))"
  proof (cases "m tr")
    case (Pair r tr')
    with assms(1) tr have tr': "list_all (\<lambda>j. j < length buf) tr'"
      unfolding safe_reader_def by (metis snd_conv)
    show ?thesis
    proof (cases r)
      case (Inl err)
      with Pair tr' show ?thesis by (simp add: rd_bind_def)
    next
      case (Inr x)
      with Pair have "rd_bind m f tr = f x tr'" by (simp add: rd_bind_def)
      with assms(2)[of x] tr' show ?thesis
        unfolding safe_reader_def by simp
    qed
  qed
qed

lemma safe_decode_record: "safe_reader buf (decode_record ops d buf i st)"
  unfolding decode_record_def Let_def getter_defs
  by (auto intro!: safe_bind safe_dv_get safe_return split: prod.splits)

lemma decode_record_in_range:
  assumes "i * ev_pointSize d + record_extent (ev_pointFormatID d) \<le> length buf"
  shows "\<exists>st'. fst (decode_record ops d buf i st tr) = Inr st'"
  using assms
  by (auto simp: decode_record_def Let_def getter_defs rd_bind_dv_get rd_return_def
      record_extent_def split: prod.splits if_splits)

lemma decode_record_out_of_range:
  assumes "\<not> i * ev_pointSize d + record_extent (ev_pointFormatID d) \<le> length buf"
  shows "fst (decode_record ops d buf i st tr) = Inl RangeError"
  using assms
  by (auto simp: decode_record_def Let_def getter_defs rd_bind_dv_get rd_return_def
      record_extent_def split: prod.splits if_splits)


lemma take_drop_nth:
  "off + n \<le> length buf \<Longrightarrow> take n (drop off buf) = map (\<lambda>k. buf ! (off + k)) [0..<n]"
  by (auto simp: list_eq_iff_nth_eq)

lemma int32_le_at:
  assumes "off + 4 \<le> length buf"
  shows "int32_le (take 4 (drop off buf)) = signed_le32_at buf off"
proof -
  have "[0..<4] = [0, 1, 2, 3::nat]" by (simp add: upt_rec)
  with take_drop_nth[OF assms] have
    "take 4 (drop off buf) = [buf ! off, buf ! (off + 1), buf ! (off + 2), buf ! (off + 3)]"
    by simp
  then show ?thesis
    by (simp add: int32_le_def le_value_def signed_le32_at_def Let_def)
qed

lemma le_value_at:
  assumes "off + 2 \<le> length buf"
  shows "le_value (take 2 (drop off buf)) = unsigned_le16_at buf off"
proof -
  have "[0..<2] = [0, 1::nat]" by (simp add: upt_rec)
  with take_drop_nth[OF assms] have "take 2 (drop off buf) = [buf ! off, buf ! (off + 1)]"
    by simp
  then show ?thesis
    by (simp add: le_value_def unsigned_le16_at_def)
qed

lemma unsigned_le16_at_bound: "unsigned_le16_at buf off < 65536"
proof -
  have "unat (buf ! off) < 256" "unat (buf ! (off + 1)) < 256"
    using unsigned_less[of "buf ! off", where 'a=nat]
      unsigned_less[of "buf ! (off + 1)", where 'a=nat] by simp_all
  then show ?thesis by (simp add: unsigned_le16_at_def)
qed

lemma unat_color_channel: "v < 65536 \<Longrightarrow> unat (color_channel v) = v div 256"
  by (simp add: color_channel_def unat_of_nat)

lemma decode_record_effect:
  assumes "fst (decode_record ops d buf i st tr) = Inr st'"
      and "ev_scale d = (s0, s1, s2)" and "ev_offset d = (o0, o1, o2)" and "ev_mins d = (m0, m1, m2)"
  shows "i * ev_pointSize d + record_extent (ev_pointFormatID d) \<le> length buf"
    and "positions st' = (positions st)
           [3 * i := f_round32 ops
                (world_coordinate ops (signed_le32_at buf (i * ev_pointSize d)) s0 o0 m0),
            3 * i + 1 := f_round32 ops
                (world_coordinate ops (signed_le32_at buf (i * ev_pointSize d + 4)) s1 o1 m1),
            3 * i + 2 := f_round32 ops
                (world_coordinate ops (signed_le32_at buf (i * ev_pointSize d + 8)) s2 o2 m2)]"
    and "colors st' =
          (if ev_pointFormatID d = 2
           then (colors st)
             [4 * i := color_channel (unsigned_le16_at buf (i * ev_pointSize d + 20)),
              4 * i + 1 := color_channel (unsigned_le16_at buf (i * ev_pointSize d + 22)),
              4 * i + 2 := color_channel (unsigned_le16_at buf (i * ev_pointSize d + 24)),
              4 * i + 3 := 255]
           else colors st)"
proof -
  show ext: "i * ev_pointSize d + record_extent (ev_pointFormatID d) \<le> length buf"
    using assms(1) decode_record_out_of_range[of i d buf ops st tr] by auto
  then have r: "i * ev_pointSize d + 20 \<le> length buf"
    by (simp add: record_extent_def split: if_splits)
  from ext have c: "ev_pointFormatID d = 2 \<Longrightarrow> i * ev_pointSize d + 26 \<le> length buf"
    by (simp add: record_extent_def)
  from r have q: "int32_le (take 4 (drop (i * ev_pointSize d) buf)) = signed_le32_at buf (i * ev_pointSize d)"
    "int32_le (take 4 (drop (i * ev_pointSize d + 4) buf)) = signed_le32_at buf (i * ev_pointSize d + 4)"
    "int32_le (take 4 (drop (i * ev_pointSize d + 8) buf)) = signed_le32_at buf (i * ev_pointSize d + 8)"
    by (simp_all add: int32_le_at)
  show "positions st' = (positions st)
           [3 * i := f_round32 ops
                (world_coordinate ops (signed_le32_at buf (i * ev_pointSize d)) s0 o0 m0),
            3 * i + 1 := f_round32 ops
                (world_coordinate ops (signed_le32_at buf (i * ev_pointSize d + 4)) s1 o1 m1),
            3 * i + 2 := f_round32 ops
                (world_coordinate ops (signed_le32_at buf (i * ev_pointSize d + 8)) s2 o2 m2)]"
    using assms r c q
    by (auto simp: decode_record_def Let_def getter_defs rd_bind_dv_get rd_return_def
        world_coordinate_def split: prod.splits if_splits)
  show "colors st' =
          (if ev_pointFormatID d = 2
           then (colors st)
             [4 * i := color_channel (unsigned_le16_at buf (i * ev_pointSize d + 20)),
              4 * i + 1 := color_channel (unsigned_le16_at buf (i * ev_pointSize d + 22)),
              4 * i + 2 := color_channel (unsigned_le16_at buf (i * ev_pointSize d + 24)),
              4 * i + 3 := 255]
           else colors st)"
  proof (cases "ev_pointFormatID d = 2")
    case False
    with assms(1) r show ?thesis
      by (auto simp: decode_record_def Let_def getter_defs rd_bind_dv_get rd_return_def
          split: prod.splits if_splits)
  next
    case True
    from c[OF True] have u:
      "le_value (take 2 (drop (i * ev_pointSize d + 20) buf)) = unsigned_le16_at buf (i * ev_pointSize d + 20)"
      "le_value (take 2 (drop (i * ev_pointSize d + 22) buf)) = unsigned_le16_at buf (i * ev_pointSize d + 22)"
      "le_value (take 2 (drop (i * ev_pointSize d + 24) buf)) = unsigned_le16_at buf (i * ev_pointSize d + 24)"
      by (simp_all add: le_value_at)
    with assms(1) c[OF True] True show ?thesis
      by (auto simp: decode_record_def Let_def getter_defs rd_bind_dv_get rd_return_def
          split: prod.splits if_splits)
  qed
qed


lemma decode_loop_unfold:
  "decode_loop ops d buf i st tr =
     (if i < ev_numPoints d
      then (case decode_record ops d buf i st tr of
              (Inl err, tr') \<Rightarrow> (Inl err, tr')
            | (Inr st', tr') \<Rightarrow> decode_loop ops d buf (i + 1) st' tr')
      else (Inr st, tr))"
  by (rule decode_loop.simps)

declare decode_loop.simps [simp del]

lemma decode_loop_invariant:
  assumes "fst (decode_loop ops d buf i st tr) = Inr st'"
      and "P i st"
      and "\<And>k s s' t. i \<le> k \<Longrightarrow> k < ev_numPoints d \<Longrightarrow> P k s \<Longrightarrow>
             fst (decode_record ops d buf k s t) = Inr s' \<Longrightarrow> P (Suc k) s'"
      and "i \<le> ev_numPoints d"
  shows "P (ev_numPoints d) st'"
  using assms
proof (induction ops d buf i st tr rule: decode_loop.induct)
  case (1 ops d buf i st tr)
  show ?case
  proof (cases "i < ev_numPoints d")
    case False
    with "1.prems"(4) have eq: "i = ev_numPoints d" by simp
    from False "1.prems"(1) have "st' = st"
      by (simp add: decode_loop_unfold[of ops d buf i st tr])
    with "1.prems"(2) eq show ?thesis by simp
  next
    case True
    obtain r tr1 where rec: "decode_record ops d buf i st tr = (r, tr1)"
      by (cases "decode_record ops d buf i st tr")
    with True "1.prems"(1) obtain s1 where r: "r = Inr s1"
      and run: "fst (decode_loop ops d buf (i + 1) s1 tr1) = Inr st'"
      by (cases r) (auto simp: decode_loop_unfold[of ops d buf i st tr])
    from rec r have "fst (decode_record ops d buf i st tr) = Inr s1" by simp
    from "1.prems"(3)[OF le_refl True "1.prems"(2) this] have p1: "P (i + 1) s1" by simp
    have step: "\<And>k s s' t. i + 1 \<le> k \<Longrightarrow> k < ev_numPoints d \<Longrightarrow> P k s \<Longrightarrow>
             fst (decode_record ops d buf k s t) = Inr s' \<Longrightarrow> P (Suc k) s'"
      using "1.prems"(3) by simp
    from True have le: "i + 1 \<le> ev_numPoints d" by simp
    from "1.IH"[OF True rec[symmetric] r run p1 step le] show ?thesis .
  qed
qed

lemma decode_loop_succeeds:
  assumes "\<forall>k. i \<le> k \<and> k < ev_numPoints d \<longrightarrow>
             k * ev_pointSize d + record_extent (ev_pointFormatID d) \<le> length buf"
  shows "\<exists>st'. fst (decode_loop ops d buf i st tr) = Inr st'"
  using assms
proof (induction ops d buf i st tr rule: decode_loop.induct)
  case (1 ops d buf i st tr)
  show ?case
  proof (cases "i < ev_numPoints d")
    case False
    then show ?thesis by (simp add: decode_loop_unfold[of ops d buf i st tr])
  next
    case True
    with "1.prems" have "i * ev_pointSize d + record_extent (ev_pointFormatID d) \<le> length buf"
      by simp
    from decode_record_in_range[OF this, of ops st tr] obtain s1 tr1 where
      rec: "decode_record ops d buf i st tr = (Inr s1, tr1)"
      by (cases "decode_record ops d buf i st tr") auto
    from "1.prems" have "\<forall>k. i + 1 \<le> k \<and> k < ev_numPoints d \<longrightarrow>
             k * ev_pointSize d + record_extent (ev_pointFormatID d) \<le> length buf"
      by simp
    from "1.IH"[OF True rec[symmetric] refl this] rec True show ?thesis
      by (simp add: decode_loop_unfold[of ops d buf i st tr])
  qed
qed

lemma decode_loop_fails:
  assumes "i \<le> k" and "k < ev_numPoints d"
      and "\<not> k * ev_pointSize d + record_extent (ev_pointFormatID d) \<le> length buf"
  shows "fst (decode_loop ops d buf i st tr) = Inl RangeError"
  using assms
proof (induction ops d buf i st tr rule: decode_loop.induct)
  case (1 ops d buf i st tr)
  from "1.prems" have lt: "i < ev_numPoints d" by simp
  obtain r tr1 where rec: "decode_record ops d buf i st tr = (r, tr1)"
    by (cases "decode_record ops d buf i st tr")
  show ?case
  proof (cases r)
    case (Inl err)
    have "i * ev_pointSize d + record_extent (ev_pointFormatID d) \<le> length buf \<Longrightarrow> False"
      using decode_record_in_range[of i d buf ops st tr] rec Inl by auto
    from decode_record_out_of_range[of i d buf ops st tr] this rec Inl
    have "err = RangeError" by auto
    with rec Inl lt show ?thesis
      by (simp add: decode_loop_unfold[of ops d buf i st tr])
  next
    case (Inr s1)
    have "i \<noteq> k"
      using decode_record_out_of_range[of i d buf ops st tr] rec Inr "1.prems"(3) by auto
    with "1.prems"(1) have "i + 1 \<le> k" by simp
    from "1.IH"[OF lt rec[symmetric] Inr this "1.prems"(2,3)] rec Inr lt show ?thesis
      by (simp add: decode_loop_unfold[of ops d buf i st tr])
  qed
qed

lemma safe_decode_loop: "safe_reader buf (decode_loop ops d buf i st)"
proof -
  have "list_all (\<lambda>j. j < length buf) tr \<Longrightarrow>
        list_all (\<lambda>j. j < length buf) (snd (decode_loop ops d buf i st tr))" for tr
  proof (induction ops d buf i st tr rule: decode_loop.induct)
    case (1 ops d buf i st tr)
    show ?case
    proof (cases "i < ev_numPoints d")
      case False
      with "1.prems" show ?thesis by (simp add: decode_loop_unfold[of ops d buf i st tr])
    next
      case True
      obtain r tr1 where rec: "decode_record ops d buf i st tr = (r, tr1)"
        by (cases "decode_record ops d buf i st tr")
      from safe_decode_record[of buf ops d i st] "1.prems" rec
      have tr1: "list_all (\<lambda>j. j < length buf) tr1"
        unfolding safe_reader_def by (metis snd_conv)
      show ?thesis
      proof (cases r)
        case (Inl err)
        with rec True tr1 show ?thesis by (simp add: decode_loop_unfold[of ops d buf i st tr])
      next
        case (Inr s1)
        from "1.IH"[OF True rec[symmetric] Inr tr1] rec Inr True show ?thesis
          by (simp add: decode_loop_unfold[of ops d buf i st tr])
      qed
    qed
  qed
  then show ?thesis by (simp add: safe_reader_def)
qed

lemma all_records_in_range_iff:
  "(\<forall>k. k < n \<longrightarrow> k * sz + ext \<le> len) \<longleftrightarrow> n = 0 \<or> (n - 1) * sz + ext \<le> (len::nat)"
proof
  assume a: "\<forall>k. k < n \<longrightarrow> k * sz + ext \<le> len"
  show "n = 0 \<or> (n - 1) * sz + ext \<le> len"
  proof (cases "n = 0")
    case False
    then have "n - 1 < n" by simp
    with a show ?thesis by blast
  qed simp
next
  assume b: "n = 0 \<or> (n - 1) * sz + ext \<le> len"
  show "\<forall>k. k < n \<longrightarrow> k * sz + ext \<le> len"
  proof (intro allI impI)
    fix k assume k: "k < n"
    then have "k \<le> n - 1" by simp
    then have m: "k * sz \<le> (n - 1) * sz" by (rule mult_le_mono1)
    from b k have "(n - 1) * sz + ext \<le> len" by auto
    with m show "k * sz + ext \<le> len" by linarith
  qed
qed

lemma scenario_event_simps:
  "ev_data (scenario_event buf n sz fmt) = Some (scenario_data buf n sz fmt)"
  "ev_buffer (scenario_data buf n sz fmt) = Some buf"
  "ev_numPoints (scenario_data buf n sz fmt) = n"
  "ev_pointSize (scenario_data buf n sz fmt) = sz"
  "ev_pointFormatID (scenario_data buf n sz fmt) = fmt"
  "ev_scale (scenario_data buf n sz fmt) = (JFin (1 / 100), JFin (1 / 100), JFin (1 / 100))"
  "ev_offset (scenario_data buf n sz fmt) = (JFin 0, JFin 0, JFin 0)"
  "ev_mins (scenario_data buf n sz fmt) = (JFin 0, JFin 0, JFin 0)"
  by (simp_all add: scenario_event_def scenario_data_def)


lemma onmessage_run_Some:
  assumes "ev_data event = Some d" and "ev_buffer d = Some buf"
  shows "onmessage ops event =
           (case fst (decode_loop ops d buf 0 (initial_state ops (ev_numPoints d)) []) of
              Inl err \<Rightarrow> Inl err
            | Inr st \<Rightarrow>
                Inr (Some \<lparr>msg_mean = mean st, msg_position = positions st,
                           msg_color = colors st, msg_intensity = intensities st,
                           msg_returnNumber = returnNumbers st,
                           msg_numberOfReturns = numberOfReturns st,
                           msg_pointSourceID = pointSourceIDs st,
                           msg_tightBoundingBox = (tbb_min st, tbb_max st),
                           msg_indices = identity_indices (ev_numPoints d)\<rparr>))"
    and "bytes_read ops event =
           snd (decode_loop ops d buf 0 (initial_state ops (ev_numPoints d)) [])"
  using assms
  by (auto simp: onmessage_def bytes_read_def onmessage_run_def Let_def
      split: prod.splits sum.splits)

lemma replicate_small:
  "replicate 3 x = [x, x, x]" "replicate 4 x = [x, x, x, x]"
  by (simp_all add: eval_nat_numeral)

lemmas decoder_eval = replicate_small
  onmessage_def onmessage_run_def decode_loop_unfold decode_record_def Let_def getter_defs
  rd_bind_dv_get rd_return_def initial_state_def identity_indices_def scenario_event_simps
  scenario_record_def exact_ops_def int32_le_def le_value_def color_channel_def j_min_def
  j_max_def


text \<open>
  Claim C10. When the message has no data, or its data has no buffer, the handler returns
  without decoding: nothing is posted, nothing is thrown, and no byte is read.
\<close>

theorem onmessage_without_buffer_is_noop:
  assumes "ev_data event = None \<or> (\<exists>d. ev_data event = Some d \<and> ev_buffer d = None)"
  shows "onmessage ops event = Inr None \<and> bytes_read ops event = []"
  using assms
  by (auto simp: onmessage_def bytes_read_def onmessage_run_def)

theorem onmessage_without_buffer_is_noop_witness:
  "ev_data (\<lparr>ev_data = None\<rparr> :: jsnum message_event) = None
   \<and> onmessage exact_ops \<lparr>ev_data = None\<rparr> = Inr None
   \<and> bytes_read exact_ops \<lparr>ev_data = None\<rparr> = []"
  using onmessage_without_buffer_is_noop [of "\<lparr>ev_data = None\<rparr>" exact_ops]
  by simp

text \<open>
  Claim C6. With \<open>numPoints = 0\<close> the decode succeeds, whatever the buffer holds: every
  output buffer is empty, the mean is its seed (0, 0, 0) and the tight bounding box is its
  seed, \<open>min\<close> three times positive infinity and \<open>max\<close> three times negative infinity.
\<close>

theorem decode_zero_points:
  assumes "ev_data event = Some d" and "ev_buffer d = Some buf" and "ev_numPoints d = 0"
  shows "onmessage ops event =
     Inr (Some \<lparr>msg_mean = (f_of_int ops 0, f_of_int ops 0, f_of_int ops 0),
                msg_position = [], msg_color = [], msg_intensity = [],
                msg_returnNumber = [], msg_numberOfReturns = [], msg_pointSourceID = [],
                msg_tightBoundingBox =
                  ((f_pos_inf ops, f_pos_inf ops, f_pos_inf ops),
                   (f_neg_inf ops, f_neg_inf ops, f_neg_inf ops)),
                msg_indices = []\<rparr>)"
  using assms
  by (simp add: onmessage_def onmessage_run_def decode_loop_unfold initial_state_def
      identity_indices_def)

theorem decode_zero_points_witness:
  "onmessage exact_ops (scenario_event [] 0 26 2) =
     Inr (Some \<lparr>msg_mean = (JFin 0, JFin 0, JFin 0),
                msg_position = [], msg_color = [], msg_intensity = [],
                msg_returnNumber = [], msg_numberOfReturns = [], msg_pointSourceID = [],
                msg_tightBoundingBox = ((JPosInf, JPosInf, JPosInf), (JNegInf, JNegInf, JNegInf)),
                msg_indices = []\<rparr>)"
  using decode_zero_points [where ops = exact_ops, OF scenario_event_simps(1,2) [of "[]" 0 26 2]]
  by (simp add: scenario_event_simps exact_ops_def)

text \<open>
  Claim C1, as amended. The worker has no check of the buffer's length against
  \<open>numPoints * pointSize\<close>; each read is bounds-checked by the \<^verbatim>\<open>DataView\<close>. Under every
  \<open>pointFormatID\<close> every byte read lies below the buffer's length. The decode throws (a
  RangeError) exactly when there is a record and the fields of the last record do not end
  inside the buffer, that is when
  \<open>length < (numPoints - 1) * pointSize + extent\<close>, where the extent of a record is 26 bytes
  for format 2 and 20 bytes otherwise; in every other case it posts a result. In particular
  a buffer of exactly \<open>numPoints * pointSize\<close> bytes decodes successfully when a record is
  at least as long as its extent.
\<close>

theorem decode_bounds:
  assumes "ev_data event = Some d" and "ev_buffer d = Some buf"
  shows "list_all (\<lambda>j. j < length buf) (bytes_read ops event)
       \<and> (onmessage ops event = Inl RangeError \<longleftrightarrow>
            0 < ev_numPoints d
            \<and> length buf < (ev_numPoints d - 1) * ev_pointSize d
                             + record_extent (ev_pointFormatID d))
       \<and> ((\<exists>m. onmessage ops event = Inr (Some m)) \<longleftrightarrow>
            ev_numPoints d = 0
            \<or> (ev_numPoints d - 1) * ev_pointSize d + record_extent (ev_pointFormatID d)
                \<le> length buf)
       \<and> (length buf = ev_numPoints d * ev_pointSize d
            \<and> record_extent (ev_pointFormatID d) \<le> ev_pointSize d \<longrightarrow>
            (\<exists>m. onmessage ops event = Inr (Some m)))"
proof -
  let ?n = "ev_numPoints d" and ?sz = "ev_pointSize d"
  let ?ext = "record_extent (ev_pointFormatID d)"
  note om = onmessage_run_Some[OF assms, of ops]
  have safe: "list_all (\<lambda>j. j < length buf) (bytes_read ops event)"
    using safe_decode_loop[of buf ops d 0 "initial_state ops ?n"]
    by (simp add: om(2) safe_reader_def)
  have ok: "\<exists>m. onmessage ops event = Inr (Some m)"
    if "?n = 0 \<or> (?n - 1) * ?sz + ?ext \<le> length buf"
  proof -
    from that have "\<forall>k. 0 \<le> k \<and> k < ?n \<longrightarrow> k * ?sz + ?ext \<le> length buf"
      using all_records_in_range_iff[of ?n ?sz ?ext "length buf"] by simp
    from decode_loop_succeeds[OF this, of ops "initial_state ops ?n" "[]"]
    show ?thesis by (auto simp: om(1))
  qed
  have bad: "onmessage ops event = Inl RangeError"
    if "0 < ?n \<and> length buf < (?n - 1) * ?sz + ?ext"
  proof -
    from that have "0 \<le> ?n - 1" "?n - 1 < ?n" "\<not> (?n - 1) * ?sz + ?ext \<le> length buf"
      by simp_all
    from decode_loop_fails[OF this, of ops "initial_state ops ?n" "[]"]
    show ?thesis by (simp add: om(1))
  qed
  have A: "onmessage ops event = Inl RangeError \<longleftrightarrow>
            0 < ?n \<and> length buf < (?n - 1) * ?sz + ?ext"
  proof
    assume e: "onmessage ops event = Inl RangeError"
    show "0 < ?n \<and> length buf < (?n - 1) * ?sz + ?ext"
    proof (rule ccontr)
      assume "\<not> (0 < ?n \<and> length buf < (?n - 1) * ?sz + ?ext)"
      then have "?n = 0 \<or> (?n - 1) * ?sz + ?ext \<le> length buf" by auto
      from ok[OF this] e show False by simp
    qed
  qed (rule bad)
  have B: "(\<exists>m. onmessage ops event = Inr (Some m)) \<longleftrightarrow>
            ?n = 0 \<or> (?n - 1) * ?sz + ?ext \<le> length buf"
  proof
    assume s: "\<exists>m. onmessage ops event = Inr (Some m)"
    show "?n = 0 \<or> (?n - 1) * ?sz + ?ext \<le> length buf"
    proof (rule ccontr)
      assume "\<not> (?n = 0 \<or> (?n - 1) * ?sz + ?ext \<le> length buf)"
      then have "0 < ?n \<and> length buf < (?n - 1) * ?sz + ?ext" by auto
      from bad[OF this] s show False by simp
    qed
  qed (rule ok)
  have C: "\<exists>m. onmessage ops event = Inr (Some m)"
    if h: "length buf = ?n * ?sz \<and> ?ext \<le> ?sz"
  proof (cases "?n = 0")
    case True
    then show ?thesis using ok by blast
  next
    case False
    then have "?n * ?sz = (?n - 1) * ?sz + ?sz"
      by (cases ?n) simp_all
    with h have "(?n - 1) * ?sz + ?ext \<le> length buf" by simp
    then show ?thesis using ok by blast
  qed
  from safe A B C show ?thesis by blast
qed

text \<open>
  The claim as stated fails both ways. A buffer of 25 bytes is shorter than one record of
  26 bytes, and with a format other than 2 it decodes successfully, since no field past
  byte 19 is read. A buffer of exactly one record of 16 bytes does not decode: the point
  source id at bytes 18 and 19 lies outside it.
\<close>

theorem decode_bounds_counterexample:
  "length (take 25 scenario_record) < 1 * 26
   \<and> onmessage exact_ops (scenario_event (take 25 scenario_record) 1 26 0) =
       Inr (Some \<lparr>msg_mean = (JFin 1, JFin 2, JFin 3),
                  msg_position = [JFin 1, JFin 2, JFin 3], msg_color = [0, 0, 0, 0],
                  msg_intensity = [JFin 7], msg_returnNumber = [2],
                  msg_numberOfReturns = [1], msg_pointSourceID = [9],
                  msg_tightBoundingBox = ((JFin 1, JFin 2, JFin 3), (JFin 1, JFin 2, JFin 3)),
                  msg_indices = [0]\<rparr>)
   \<and> length (take 16 scenario_record) = 1 * 16
   \<and> onmessage exact_ops (scenario_event (take 16 scenario_record) 1 16 0) = Inl RangeError"
proof -
  have a: "onmessage exact_ops (scenario_event (take 25 scenario_record) 1 26 0) =
       Inr (Some \<lparr>msg_mean = (JFin 1, JFin 2, JFin 3),
                  msg_position = [JFin 1, JFin 2, JFin 3], msg_color = [0, 0, 0, 0],
                  msg_intensity = [JFin 7], msg_returnNumber = [2],
                  msg_numberOfReturns = [1], msg_pointSourceID = [9],
                  msg_tightBoundingBox = ((JFin 1, JFin 2, JFin 3), (JFin 1, JFin 2, JFin 3)),
                  msg_indices = [0]\<rparr>)"
    by (simp add: decoder_eval)
  have b: "onmessage exact_ops (scenario_event (take 16 scenario_record) 1 16 0) = Inl RangeError"
    by (simp add: decoder_eval)
  have l: "length (take 25 scenario_record) < 1 * 26" "length (take 16 scenario_record) = 1 * 16"
    by (simp_all add: scenario_record_def)
  from a b l show ?thesis by simp
qed

theorem decode_bounds_witness:
  "length scenario_record = 1 * 26
   \<and> (\<exists>m. onmessage exact_ops (scenario_event scenario_record 1 26 2) = Inr (Some m))
   \<and> onmessage exact_ops (scenario_event (take 25 scenario_record) 1 26 2) = Inl RangeError
   \<and> list_all (\<lambda>j. j < 25) (bytes_read exact_ops (scenario_event (take 25 scenario_record) 1 26 2))"
proof -
  have l: "length scenario_record = 26" by (simp add: scenario_record_def)
  note a = decode_bounds [where ops = exact_ops,
      OF scenario_event_simps(1,2) [of scenario_record 1 26 2]]
  note b = decode_bounds [where ops = exact_ops,
      OF scenario_event_simps(1,2) [of "take 25 scenario_record" 1 26 2]]
  from a b l show ?thesis
    by (simp add: record_extent_def scenario_event_simps)
qed

lemma decode_loop_positions:
  assumes run: "fst (decode_loop ops d buf 0 st0 tr) = Inr st'"
      and sc: "ev_scale d = (s0, s1, s2)" and off: "ev_offset d = (o0, o1, o2)"
      and mn: "ev_mins d = (m0, m1, m2)"
      and len: "length (positions st0) = 3 * ev_numPoints d"
      and i: "i < ev_numPoints d"
  shows "positions st' ! (3 * i) = f_round32 ops
           (world_coordinate ops (signed_le32_at buf (i * ev_pointSize d)) s0 o0 m0)"
    and "positions st' ! (3 * i + 1) = f_round32 ops
           (world_coordinate ops (signed_le32_at buf (i * ev_pointSize d + 4)) s1 o1 m1)"
    and "positions st' ! (3 * i + 2) = f_round32 ops
           (world_coordinate ops (signed_le32_at buf (i * ev_pointSize d + 8)) s2 o2 m2)"
    and "length (positions st') = 3 * ev_numPoints d"
proof -
  let ?n = "ev_numPoints d"
  let ?X = "\<lambda>j. f_round32 ops
           (world_coordinate ops (signed_le32_at buf (j * ev_pointSize d)) s0 o0 m0)"
  let ?Y = "\<lambda>j. f_round32 ops
           (world_coordinate ops (signed_le32_at buf (j * ev_pointSize d + 4)) s1 o1 m1)"
  let ?Z = "\<lambda>j. f_round32 ops
           (world_coordinate ops (signed_le32_at buf (j * ev_pointSize d + 8)) s2 o2 m2)"
  let ?P = "\<lambda>k s. length (positions s) = 3 * ?n
              \<and> (\<forall>j<k. positions s ! (3 * j) = ?X j \<and> positions s ! (3 * j + 1) = ?Y j
                         \<and> positions s ! (3 * j + 2) = ?Z j)"
  have step: "?P (Suc k) s'"
    if k: "k < ?n" and p: "?P k s" and r: "fst (decode_record ops d buf k s t) = Inr s'"
    for k s s' t
  proof -
    from decode_record_effect(2)[OF r sc off mn]
    have ps: "positions s' = (positions s)[3 * k := ?X k, 3 * k + 1 := ?Y k, 3 * k + 2 := ?Z k]" .
    from p have l: "length (positions s) = 3 * ?n" by simp
    have "positions s' ! (3 * j) = ?X j \<and> positions s' ! (3 * j + 1) = ?Y j
            \<and> positions s' ! (3 * j + 2) = ?Z j" if j: "j < Suc k" for j
    proof (cases "j = k")
      case True
      with k l show ?thesis unfolding ps by (simp add: nth_list_update)
    next
      case False
      with j have jk: "j < k" by simp
      with p have old: "positions s ! (3 * j) = ?X j" "positions s ! (3 * j + 1) = ?Y j"
          "positions s ! (3 * j + 2) = ?Z j" by simp_all
      from jk have ne: "3 * j \<noteq> 3 * k" "3 * j \<noteq> 3 * k + 1" "3 * j \<noteq> 3 * k + 2"
        "3 * j + 1 \<noteq> 3 * k" "3 * j + 1 \<noteq> 3 * k + 1" "3 * j + 1 \<noteq> 3 * k + 2"
        "3 * j + 2 \<noteq> 3 * k" "3 * j + 2 \<noteq> 3 * k + 1" "3 * j + 2 \<noteq> 3 * k + 2"
        by simp_all
      from old ne show ?thesis unfolding ps
        by (simp only: nth_list_update_neq[OF not_sym] simp_thms)
    qed
    with l show ?thesis unfolding ps by simp
  qed
  have "?P ?n st'"
  proof (rule decode_loop_invariant[where P = ?P, OF run])
    show "?P 0 st0" using len by simp
    show "?P (Suc k) s'"
      if "k < ?n" and "?P k s" and "fst (decode_record ops d buf k s t) = Inr s'" for k s s' t
      using that by (rule step)
    show "0 \<le> ?n" by simp
  qed
  with i show "positions st' ! (3 * i) = ?X i" "positions st' ! (3 * i + 1) = ?Y i"
    "positions st' ! (3 * i + 2) = ?Z i" "length (positions st') = 3 * ?n"
    by simp_all
qed

lemma decode_loop_in_range:
  assumes "fst (decode_loop ops d buf 0 st0 tr) = Inr st'" and "i < ev_numPoints d"
  shows "i * ev_pointSize d + record_extent (ev_pointFormatID d) \<le> length buf"
proof (rule ccontr)
  assume "\<not> i * ev_pointSize d + record_extent (ev_pointFormatID d) \<le> length buf"
  from decode_loop_fails[OF le0 assms(2) this, of ops st0 tr] assms(1) show False by simp
qed

text \<open>
  Claim C4. In a decoded payload, for every record \<open>i\<close>: the twelve bytes of the three
  quantized coordinates lie in the buffer; they are read as signed little-endian 32-bit
  values at byte offsets 0, 4 and 8 of the record; and \<open>position[3 i]\<close>,
  \<open>position[3 i + 1]\<close> and \<open>position[3 i + 2]\<close> hold
  \<open>quantized * scale + offset - global_min\<close> of the axis, as stored into the
  \<^verbatim>\<open>Float32Array\<close>.
\<close>

theorem decode_positions:
  assumes "onmessage ops event = Inr (Some m)"
      and "ev_data event = Some d" and "ev_buffer d = Some buf"
      and "ev_scale d = (s0, s1, s2)" and "ev_offset d = (o0, o1, o2)"
      and "ev_mins d = (m0, m1, m2)"
      and "i < ev_numPoints d"
  shows "i * ev_pointSize d + 12 \<le> length buf
       \<and> length (msg_position m) = 3 * ev_numPoints d
       \<and> msg_position m ! (3 * i) = f_round32 ops
           (world_coordinate ops (signed_le32_at buf (i * ev_pointSize d)) s0 o0 m0)
       \<and> msg_position m ! (3 * i + 1) = f_round32 ops
           (world_coordinate ops (signed_le32_at buf (i * ev_pointSize d + 4)) s1 o1 m1)
       \<and> msg_position m ! (3 * i + 2) = f_round32 ops
           (world_coordinate ops (signed_le32_at buf (i * ev_pointSize d + 8)) s2 o2 m2)"
proof -
  let ?st0 = "initial_state ops (ev_numPoints d)"
  from assms(1) onmessage_run_Some(1)[OF assms(2,3), of ops] obtain st where
    run: "fst (decode_loop ops d buf 0 ?st0 []) = Inr st" and mp: "msg_position m = positions st"
    by (auto split: sum.splits)
  have len: "length (positions ?st0) = 3 * ev_numPoints d"
    by (simp add: initial_state_def)
  from decode_loop_in_range[OF run assms(7)]
  have "i * ev_pointSize d + 12 \<le> length buf"
    by (simp add: record_extent_def split: if_splits)
  with decode_loop_positions[OF run assms(4,5,6) len assms(7)] mp show ?thesis by simp
qed

theorem decode_positions_witness:
  "onmessage exact_ops (scenario_event scenario_record 1 26 2) =
     Inr (Some \<lparr>msg_mean = (JFin 1, JFin 2, JFin 3),
                msg_position = [JFin 1, JFin 2, JFin 3], msg_color = [255, 128, 1, 255],
                msg_intensity = [JFin 7], msg_returnNumber = [2],
                msg_numberOfReturns = [1], msg_pointSourceID = [9],
                msg_tightBoundingBox = ((JFin 1, JFin 2, JFin 3), (JFin 1, JFin 2, JFin 3)),
                msg_indices = [0]\<rparr>)
   \<and> signed_le32_at scenario_record 0 = 100
   \<and> signed_le32_at scenario_record 4 = 200
   \<and> signed_le32_at scenario_record 8 = 300
   \<and> world_coordinate exact_ops 100 (JFin (1 / 100)) (JFin 0) (JFin 0) = JFin 1
   \<and> world_coordinate exact_ops 200 (JFin (1 / 100)) (JFin 0) (JFin 0) = JFin 2
   \<and> world_coordinate exact_ops 300 (JFin (1 / 100)) (JFin 0) (JFin 0) = JFin 3"
proof -
  have om: "onmessage exact_ops (scenario_event scenario_record 1 26 2) =
     Inr (Some \<lparr>msg_mean = (JFin 1, JFin 2, JFin 3),
                msg_position = [JFin 1, JFin 2, JFin 3], msg_color = [255, 128, 1, 255],
                msg_intensity = [JFin 7], msg_returnNumber = [2],
                msg_numberOfReturns = [1], msg_pointSourceID = [9],
                msg_tightBoundingBox = ((JFin 1, JFin 2, JFin 3), (JFin 1, JFin 2, JFin 3)),
                msg_indices = [0]\<rparr>)"
    by (simp add: decoder_eval)
  have q: "signed_le32_at scenario_record 0 = 100" "signed_le32_at scenario_record 4 = 200"
    "signed_le32_at scenario_record 8 = 300"
    by (simp_all add: signed_le32_at_def scenario_record_def)
  have i: "(0::nat) < ev_numPoints (scenario_data scenario_record 1 26 2)"
    by (simp add: scenario_event_simps)
  from decode_positions [OF om scenario_event_simps(1,2,6,7,8) i] q om show ?thesis
    by (simp add: scenario_event_simps exact_ops_def)
qed

lemma decode_loop_colors:
  assumes run: "fst (decode_loop ops d buf 0 st0 tr) = Inr st'"
      and len: "length (colors st0) = 4 * ev_numPoints d"
      and fmt: "ev_pointFormatID d = 2"
      and i: "i < ev_numPoints d"
  shows "colors st' ! (4 * i) = color_channel (unsigned_le16_at buf (i * ev_pointSize d + 20))"
    and "colors st' ! (4 * i + 1) = color_channel (unsigned_le16_at buf (i * ev_pointSize d + 22))"
    and "colors st' ! (4 * i + 2) = color_channel (unsigned_le16_at buf (i * ev_pointSize d + 24))"
    and "colors st' ! (4 * i + 3) = 255"
proof -
  let ?n = "ev_numPoints d"
  let ?R = "\<lambda>j. color_channel (unsigned_le16_at buf (j * ev_pointSize d + 20))"
  let ?G = "\<lambda>j. color_channel (unsigned_le16_at buf (j * ev_pointSize d + 22))"
  let ?B = "\<lambda>j. color_channel (unsigned_le16_at buf (j * ev_pointSize d + 24))"
  let ?P = "\<lambda>k s. length (colors s) = 4 * ?n
              \<and> (\<forall>j<k. colors s ! (4 * j) = ?R j \<and> colors s ! (4 * j + 1) = ?G j
                         \<and> colors s ! (4 * j + 2) = ?B j \<and> colors s ! (4 * j + 3) = 255)"
  obtain s0 s1 s2 o0 o1 o2 m0 m1 m2 where
    sc: "ev_scale d = (s0, s1, s2)" and off: "ev_offset d = (o0, o1, o2)"
    and mn: "ev_mins d = (m0, m1, m2)"
    by (metis prod_cases3)
  have step: "?P (Suc k) s'"
    if k: "k < ?n" and p: "?P k s" and r: "fst (decode_record ops d buf k s t) = Inr s'"
    for k s s' t
  proof -
    from decode_record_effect(3)[OF r sc off mn] fmt
    have cs: "colors s' = (colors s)[4 * k := ?R k, 4 * k + 1 := ?G k, 4 * k + 2 := ?B k,
                4 * k + 3 := 255]" by simp
    from p have l: "length (colors s) = 4 * ?n" by simp
    have "colors s' ! (4 * j) = ?R j \<and> colors s' ! (4 * j + 1) = ?G j
            \<and> colors s' ! (4 * j + 2) = ?B j \<and> colors s' ! (4 * j + 3) = 255"
      if j: "j < Suc k" for j
    proof (cases "j = k")
      case True
      with k l show ?thesis unfolding cs by (simp add: nth_list_update)
    next
      case False
      with j have jk: "j < k" by simp
      with p have old: "colors s ! (4 * j) = ?R j" "colors s ! (4 * j + 1) = ?G j"
          "colors s ! (4 * j + 2) = ?B j" "colors s ! (4 * j + 3) = 255" by simp_all
      from jk have ne:
        "4 * j \<noteq> 4 * k" "4 * j \<noteq> 4 * k + 1" "4 * j \<noteq> 4 * k + 2" "4 * j \<noteq> 4 * k + 3"
        "4 * j + 1 \<noteq> 4 * k" "4 * j + 1 \<noteq> 4 * k + 1" "4 * j + 1 \<noteq> 4 * k + 2"
        "4 * j + 1 \<noteq> 4 * k + 3"
        "4 * j + 2 \<noteq> 4 * k" "4 * j + 2 \<noteq> 4 * k + 1" "4 * j + 2 \<noteq> 4 * k + 2"
        "4 * j + 2 \<noteq> 4 * k + 3"
        "4 * j + 3 \<noteq> 4 * k" "4 * j + 3 \<noteq> 4 * k + 1" "4 * j + 3 \<noteq> 4 * k + 2"
        "4 * j + 3 \<noteq> 4 * k + 3"
        by simp_all
      from old ne show ?thesis unfolding cs
        by (simp only: nth_list_update_neq[OF not_sym] simp_thms)
    qed
    with l show ?thesis unfolding cs by simp
  qed
  have "?P ?n st'"
  proof (rule decode_loop_invariant[where P = ?P, OF run])
    show "?P 0 st0" using len by simp
    show "?P (Suc k) s'"
      if "k < ?n" and "?P k s" and "fst (decode_record ops d buf k s t) = Inr s'" for k s s' t
      using that by (rule step)
    show "0 \<le> ?n" by simp
  qed
  with i show "colors st' ! (4 * i) = ?R i" "colors st' ! (4 * i + 1) = ?G i"
    "colors st' ! (4 * i + 2) = ?B i" "colors st' ! (4 * i + 3) = 255"
    by simp_all
qed

lemma decode_record_keeps_colors:
  assumes "ev_pointFormatID d \<noteq> 2" and "fst (decode_record ops d buf i st tr) = Inr st'"
  shows "colors st' = colors st"
proof -
  obtain s0 s1 s2 o0 o1 o2 m0 m1 m2 where
    "ev_scale d = (s0, s1, s2)" "ev_offset d = (o0, o1, o2)" "ev_mins d = (m0, m1, m2)"
    by (metis prod_cases3)
  from decode_record_effect(3)[OF assms(2) this] assms(1) show ?thesis by simp
qed

lemma decode_loop_keeps_colors:
  assumes "ev_pointFormatID d \<noteq> 2" and "fst (decode_loop ops d buf 0 st0 tr) = Inr st'"
  shows "colors st' = colors st0"
proof (rule decode_loop_invariant[where P = "\<lambda>k s. colors s = colors st0", OF assms(2)])
  show "colors st0 = colors st0" by simp
  show "colors s' = colors st0"
    if "colors s = colors st0" and "fst (decode_record ops d buf k s t) = Inr s'" for k s s' t
    using decode_record_keeps_colors[OF assms(1) that(2)] that(1) by simp
  show "0 \<le> ev_numPoints d" by simp
qed

text \<open>
  Claim C7. In a decoded payload with \<open>pointFormatID = 2\<close>, for every record the unsigned
  16-bit colour channels at record offsets 20, 22 and 24 lie in the buffer and the colour
  bytes \<open>4 i\<close>, \<open>4 i + 1\<close>, \<open>4 i + 2\<close> hold their values divided by 256, rounded down,
  and byte \<open>4 i + 3\<close> holds 255. With any other format the loop body writes no byte of
  the colour buffer, for any record and from any state of that buffer, so the loop leaves
  it as it was, and the posted colour buffer is all zero as allocated.
\<close>

theorem decode_colors:
  assumes "onmessage ops event = Inr (Some m)"
      and "ev_data event = Some d" and "ev_buffer d = Some buf"
  shows "(ev_pointFormatID d = 2 \<longrightarrow>
            (\<forall>i<ev_numPoints d.
               i * ev_pointSize d + 26 \<le> length buf
               \<and> unat (msg_color m ! (4 * i)) =
                   unsigned_le16_at buf (i * ev_pointSize d + 20) div 256
               \<and> unat (msg_color m ! (4 * i + 1)) =
                   unsigned_le16_at buf (i * ev_pointSize d + 22) div 256
               \<and> unat (msg_color m ! (4 * i + 2)) =
                   unsigned_le16_at buf (i * ev_pointSize d + 24) div 256
               \<and> msg_color m ! (4 * i + 3) = 255))
       \<and> (ev_pointFormatID d \<noteq> 2 \<longrightarrow>
            (\<forall>i st tr st'. fst (decode_record ops d buf i st tr) = Inr st' \<longrightarrow>
               colors st' = colors st)
            \<and> (\<forall>st0 tr st'. fst (decode_loop ops d buf 0 st0 tr) = Inr st' \<longrightarrow>
                 colors st' = colors st0)
            \<and> msg_color m = replicate (ev_numPoints d * 4) 0)"
proof -
  let ?st0 = "initial_state ops (ev_numPoints d)"
  from assms(1) onmessage_run_Some(1)[OF assms(2,3), of ops] obtain st where
    run: "fst (decode_loop ops d buf 0 ?st0 []) = Inr st" and mc: "msg_color m = colors st"
    by (auto split: sum.splits)
  have len: "length (colors ?st0) = 4 * ev_numPoints d"
    by (simp add: initial_state_def)
  have A: "i * ev_pointSize d + 26 \<le> length buf
               \<and> unat (msg_color m ! (4 * i)) =
                   unsigned_le16_at buf (i * ev_pointSize d + 20) div 256
               \<and> unat (msg_color m ! (4 * i + 1)) =
                   unsigned_le16_at buf (i * ev_pointSize d + 22) div 256
               \<and> unat (msg_color m ! (4 * i + 2)) =
                   unsigned_le16_at buf (i * ev_pointSize d + 24) div 256
               \<and> msg_color m ! (4 * i + 3) = 255"
    if fmt: "ev_pointFormatID d = 2" and i: "i < ev_numPoints d" for i
  proof -
    from decode_loop_in_range[OF run i] fmt have "i * ev_pointSize d + 26 \<le> length buf"
      by (simp add: record_extent_def)
    with decode_loop_colors[OF run len fmt i] show ?thesis
      unfolding mc by (simp add: unat_color_channel unsigned_le16_at_bound)
  qed
  have B: "msg_color m = replicate (ev_numPoints d * 4) 0" if "ev_pointFormatID d \<noteq> 2"
    using decode_loop_keeps_colors[OF that run] mc by (simp add: initial_state_def)
  from A B decode_record_keeps_colors decode_loop_keeps_colors show ?thesis
    by blast
qed

theorem decode_colors_witness:
  "onmessage exact_ops (scenario_event scenario_record 1 26 2) =
     Inr (Some \<lparr>msg_mean = (JFin 1, JFin 2, JFin 3),
                msg_position = [JFin 1, JFin 2, JFin 3], msg_color = [255, 128, 1, 255],
                msg_intensity = [JFin 7], msg_returnNumber = [2],
                msg_numberOfReturns = [1], msg_pointSourceID = [9],
                msg_tightBoundingBox = ((JFin 1, JFin 2, JFin 3), (JFin 1, JFin 2, JFin 3)),
                msg_indices = [0]\<rparr>)
   \<and> unsigned_le16_at scenario_record 20 = 65535
   \<and> unsigned_le16_at scenario_record 22 = 32768
   \<and> unsigned_le16_at scenario_record 24 = 256
   \<and> msg_color (the (projr (onmessage exact_ops (scenario_event (take 25 scenario_record) 1 26 0))))
       = [0, 0, 0, 0]"
proof -
  have om: "onmessage exact_ops (scenario_event scenario_record 1 26 2) =
     Inr (Some \<lparr>msg_mean = (JFin 1, JFin 2, JFin 3),
                msg_position = [JFin 1, JFin 2, JFin 3], msg_color = [255, 128, 1, 255],
                msg_intensity = [JFin 7], msg_returnNumber = [2],
                msg_numberOfReturns = [1], msg_pointSourceID = [9],
                msg_tightBoundingBox = ((JFin 1, JFin 2, JFin 3), (JFin 1, JFin 2, JFin 3)),
                msg_indices = [0]\<rparr>)"
    by (simp add: decoder_eval)
  have u: "unsigned_le16_at scenario_record 20 = 65535"
    "unsigned_le16_at scenario_record 22 = 32768" "unsigned_le16_at scenario_record 24 = 256"
    by (simp_all add: unsigned_le16_at_def scenario_record_def)
  obtain m0 where om0:
    "onmessage exact_ops (scenario_event (take 25 scenario_record) 1 26 0) = Inr (Some m0)"
    by (simp add: decoder_eval)
  from decode_colors [OF om0 scenario_event_simps(1,2)]
  have "msg_color m0 = [0, 0, 0, 0]"
    by (simp add: scenario_event_simps replicate_small)
  with om u om0 show ?thesis by simp
qed

end
